theory Spec2Isabelle
  imports Main "HOL-Library.Char_ord" "HOL-Library.List_Lexorder" "HOL-Library.Log_Nat"
begin

section \<open>Durations\<close>

text \<open>
  A Go \<^verbatim>\<open>time.Duration\<close> is a signed 64-bit count of nanoseconds. Durations are
  modelled as \<open>int\<close>; where the source adds two of them the wrap-around of the 64-bit
  addition is written out with \<open>wrap64\<close>.

  \<^verbatim>\<open>time.ParseDuration\<close> belongs to the Go standard library, not to the repository.
  Every function that calls it takes the parser as its first argument
  \<open>pd :: string \<Rightarrow> int option\<close> (\<open>None\<close> is the parse error, \<open>Some d\<close> the
  duration in nanoseconds), and the theorems hold for every parser.
\<close>

type_synonym duration = int

type_synonym parser = "string \<Rightarrow> duration option"

definition Second :: duration where
  "Second = 1000000000"

definition in64 :: "int \<Rightarrow> bool" where
  "in64 x \<longleftrightarrow> - (2 ^ 63) \<le> x \<and> x < 2 ^ 63"

definition wrap64 :: "int \<Rightarrow> int" where
  "wrap64 x = (x + 2 ^ 63) mod 2 ^ 64 - 2 ^ 63"

text \<open>
  A concrete parser for the closed examples: it reads a non-empty run of decimal digits
  followed by \<open>s\<close> as that many seconds, as \<^verbatim>\<open>time.ParseDuration\<close> does on such
  literals, and reports every other string as unparseable (the library also accepts
  signs, fractions and the other units, which the examples do not use).
\<close>

definition isDigit :: "char \<Rightarrow> bool" where
  "isDigit c \<longleftrightarrow> c \<in> set ''0123456789''"

text \<open>The value of a digit is its position in the string of the ten digits.\<close>

definition digitValue :: "char \<Rightarrow> nat" where
  "digitValue c = length (takeWhile (\<lambda>d. d \<noteq> c) ''0123456789'')"

fun decimalValue :: "nat \<Rightarrow> string \<Rightarrow> nat" where
  "decimalValue acc [] = acc"
| "decimalValue acc (c # cs) = decimalValue (10 * acc + digitValue c) cs"

definition parseSecondsLiteral :: parser where
  "parseSecondsLiteral s =
     (if s \<noteq> [] \<and> last s = CHR ''s'' \<and> butlast s \<noteq> [] \<and> list_all isDigit (butlast s)
         \<and> in64 (int (decimalValue 0 (butlast s)) * Second)
      then Some (int (decimalValue 0 (butlast s)) * Second)
      else None)"

text \<open>
  Go's integer division and remainder truncate towards zero, where HOL's \<open>div\<close> and
  \<open>mod\<close> round down.
\<close>

definition goQuot :: "int \<Rightarrow> int \<Rightarrow> int" where
  "goQuot a b = (if (a < 0) = (b < 0) then \<bar>a\<bar> div \<bar>b\<bar> else - (\<bar>a\<bar> div \<bar>b\<bar>))"

definition goRem :: "int \<Rightarrow> int \<Rightarrow> int" where
  "goRem a b = a - b * goQuot a b"

section \<open>Decimal rendering\<close>

text \<open>\<^verbatim>\<open>fmt.Sprintf("%d", i)\<close>: the decimal digits of an integer, with a minus sign.\<close>

definition digitChar :: "nat \<Rightarrow> char" where
  "digitChar n = ''0123456789'' ! n"

fun decimalDigits :: "nat \<Rightarrow> string" where
  "decimalDigits n =
     (if n < 10 then [digitChar n] else decimalDigits (n div 10) @ [digitChar (n mod 10)])"

declare decimalDigits.simps [simp del]

definition Sprintd :: "int \<Rightarrow> string" where
  "Sprintd i = (if i < 0 then CHR ''-'' # decimalDigits (nat (- i)) else decimalDigits (nat i))"

section \<open>Binary floating point\<close>

text \<open>
  A Go \<^verbatim>\<open>float64\<close> is an IEEE 754 double. A finite double is the number
  \<open>mantissa * 2 ^ exponent\<close> for two integers; \<open>F64 m e\<close> stands for it (several pairs
  stand for the same number, and the comparisons below compare numbers). Every arithmetic
  operation returns the double nearest to the exact result, ties going to the even
  53-bit mantissa. The exponent range is not modelled: the computations of this program
  work on 64-bit integers and their quotients, far from overflow and from subnormal
  numbers. Infinities and NaN are not values of \<open>f64\<close>. The operator \<open>f64_div\<close> is the
  quotient by a divisor that is not zero (on a zero divisor it returns \<open>F64 0 0\<close>): a
  constant, a count of at least one, or a value the program has tested to be positive.
  The linear ramp divides by a duration that can be zero; there the model uses
  \<open>f64_quot\<close>, whose result \<open>None\<close> stands for the infinity or NaN that such a
  division gives.
\<close>

datatype f64 = F64 (mantissa: int) (exponent: int)

definition f64_val :: "f64 \<Rightarrow> rat" where
  "f64_val x =
     (if 0 \<le> exponent x then of_int (mantissa x * 2 ^ nat (exponent x))
      else of_int (mantissa x) / of_int (2 ^ nat (- exponent x)))"

text \<open>The integer nearest to \<open>n / d\<close> for \<open>0 < d\<close>, a tie going to the even one.\<close>

definition roundHalfEven :: "int \<Rightarrow> int \<Rightarrow> int" where
  "roundHalfEven n d =
     (let f = n div d; r = n mod d
      in if 2 * r < d then f else if d < 2 * r then f + 1 else if even f then f else f + 1)"

text \<open>\<open>scaled p q s\<close> is the fraction \<open>p / q * 2 ^ s\<close> as a numerator and a denominator.\<close>

definition scaled :: "int \<Rightarrow> int \<Rightarrow> int \<Rightarrow> int \<times> int" where
  "scaled p q s = (if 0 \<le> s then (p * 2 ^ nat s, q) else (p, q * 2 ^ nat (- s)))"

text \<open>
  The shift \<open>s\<close> that brings \<open>p / q\<close> (both positive) into the range of a 53-bit
  mantissa: \<open>2 ^ 52 \<le> p / q * 2 ^ s < 2 ^ 53\<close>. The bit lengths give it up to one.
\<close>

definition binadeShift :: "int \<Rightarrow> int \<Rightarrow> int" where
  "binadeShift p q =
     (let s0 = 52 - (bitlen p - bitlen q)
      in if 2 ^ 52 * snd (scaled p q s0) \<le> fst (scaled p q s0) then s0 else s0 + 1)"

definition round53 :: "int \<Rightarrow> int \<Rightarrow> f64" where
  "round53 p q =
     (if p = 0 then F64 0 0
      else let s = binadeShift p q
           in F64 (roundHalfEven (fst (scaled p q s)) (snd (scaled p q s))) (- s))"

text \<open>The double nearest to \<open>p / q * 2 ^ e\<close>, for \<open>0 < q\<close>.\<close>

definition f64_ratio :: "int \<Rightarrow> int \<Rightarrow> int \<Rightarrow> f64" where
  "f64_ratio p q e =
     (let r = round53 \<bar>p\<bar> q
      in F64 (if p < 0 then - mantissa r else mantissa r) (exponent r + e))"

text \<open>The conversion \<^verbatim>\<open>float64(i)\<close> and the operators \<^verbatim>\<open>/\<close>, \<^verbatim>\<open>*\<close>, \<^verbatim>\<open>+\<close>.\<close>

definition f64_of_int :: "int \<Rightarrow> f64" where
  "f64_of_int i = f64_ratio i 1 0"

definition f64_div :: "f64 \<Rightarrow> f64 \<Rightarrow> f64" where
  "f64_div x y =
     (if 0 < mantissa y then f64_ratio (mantissa x) (mantissa y) (exponent x - exponent y)
      else if mantissa y < 0
        then f64_ratio (- mantissa x) (- mantissa y) (exponent x - exponent y)
      else F64 0 0)"

definition f64_quot :: "f64 \<Rightarrow> f64 \<Rightarrow> f64 option" where
  "f64_quot x y = (if mantissa y = 0 then None else Some (f64_div x y))"

definition f64_mul :: "f64 \<Rightarrow> f64 \<Rightarrow> f64" where
  "f64_mul x y = f64_ratio (mantissa x * mantissa y) 1 (exponent x + exponent y)"

definition f64_add :: "f64 \<Rightarrow> f64 \<Rightarrow> f64" where
  "f64_add x y =
     (let k = min (exponent x) (exponent y)
      in f64_ratio (mantissa x * 2 ^ nat (exponent x - k) + mantissa y * 2 ^ nat (exponent y - k))
           1 k)"

text \<open>The comparisons \<^verbatim>\<open><\<close> and \<^verbatim>\<open>==\<close> of two doubles, on a common exponent.\<close>

definition f64_less :: "f64 \<Rightarrow> f64 \<Rightarrow> bool" where
  "f64_less x y =
     (let k = min (exponent x) (exponent y)
      in mantissa x * 2 ^ nat (exponent x - k) < mantissa y * 2 ^ nat (exponent y - k))"

definition f64_eq :: "f64 \<Rightarrow> f64 \<Rightarrow> bool" where
  "f64_eq x y \<longleftrightarrow> \<not> f64_less x y \<and> \<not> f64_less y x"

definition f64_zero :: f64 where
  "f64_zero = F64 0 0"

text \<open>The conversion \<^verbatim>\<open>int(x)\<close> drops the fraction (towards zero).\<close>

definition f64_to_int :: "f64 \<Rightarrow> int" where
  "f64_to_int x =
     (if 0 \<le> exponent x then mantissa x * 2 ^ nat (exponent x)
      else if 0 \<le> mantissa x then mantissa x div 2 ^ nat (- exponent x)
      else - ((- mantissa x) div 2 ^ nat (- exponent x)))"

text \<open>
  The result of \<^verbatim>\<open>int(x)\<close> is a 64-bit integer. For a double whose integer part is
  not a 64-bit value, and for an infinity or NaN, the language leaves the result to the
  implementation; the amd64 conversion instruction gives the least 64-bit integer, which
  is what the model returns.
\<close>

definition MinInt64 :: int where
  "MinInt64 = - (2 ^ 63)"

definition f64_to_int64 :: "f64 option \<Rightarrow> int" where
  "f64_to_int64 x =
     (case x of
        None \<Rightarrow> MinInt64
      | Some y \<Rightarrow> if in64 (f64_to_int y) then f64_to_int y else MinInt64)"

text \<open>
  \<^verbatim>\<open>fmt.Sprintf("%.0f", x)\<close>: the integer nearest to \<open>x\<close> (a tie going to the even
  one) in decimal digits, after a minus sign when \<open>x\<close> is negative.
\<close>

definition SprintF0 :: "f64 \<Rightarrow> string" where
  "SprintF0 x =
     (if mantissa x < 0 then [CHR ''-''] else [])
     @ decimalDigits (nat (roundHalfEven (fst (scaled \<bar>mantissa x\<bar> 1 (exponent x)))
                                          (snd (scaled \<bar>mantissa x\<bar> 1 (exponent x)))))"

text \<open>
  The methods of \<^verbatim>\<open>time.Duration\<close> the program calls. \<^verbatim>\<open>Seconds\<close> adds the whole
  seconds and the fraction as doubles; \<^verbatim>\<open>Milliseconds\<close> is an integer division.
  \<^verbatim>\<open>String\<close> is taken as a parameter \<open>ds :: duration \<Rightarrow> string\<close> where it is called.
\<close>

definition Seconds :: "duration \<Rightarrow> f64" where
  "Seconds d =
     f64_add (f64_of_int (goQuot d Second))
             (f64_div (f64_of_int (goRem d Second)) (f64_of_int 1000000000))"

definition Milliseconds :: "duration \<Rightarrow> int" where
  "Milliseconds d = goQuot d 1000000"

section \<open>The Go runtime\<close>

text \<open>
  \<^verbatim>\<open>make\<close> panics when the length of a slice or the capacity of a channel is negative
  or more than the runtime can allocate, and a program that runs out of memory for its
  goroutines stops with a fatal error. What the runtime can allocate is not decided by
  the source. The functions that allocate an amount they compute take a \<open>Runtime\<close>: its
  fields say whether a slice of \<open>n\<close> ramp phases can be made, whether a request channel
  of capacity \<open>n\<close> can be made, and whether \<open>n\<close> worker goroutines can be started.
\<close>

datatype go_panic = MakeSliceLenOutOfRange | MakeChanSizeOutOfRange | OutOfMemory

record Runtime =
  canMakePhases :: "int \<Rightarrow> bool"
  canMakeQueue :: "int \<Rightarrow> bool"
  canStartWorkers :: "int \<Rightarrow> bool"

text \<open>A runtime for the closed examples, with room for what they allocate.\<close>

definition exampleRuntime :: Runtime where
  "exampleRuntime =
     \<lparr>canMakePhases = (\<lambda>n. n \<le> 1000), canMakeQueue = (\<lambda>n. n \<le> 100000),
      canStartWorkers = (\<lambda>n. n \<le> 10000)\<rparr>"

section \<open>Ramp-up strategies\<close>

text \<open>The structs of the ramp-up source file. \<^verbatim>\<open>RampUpType\<close> is a Go string type.\<close>

record RampPhase =
  Duration :: string
  Concurrency :: int
  Mode :: string

record RampUpStrategy =
  Type :: string
  Duration :: string
  Phases :: "RampPhase list"

definition RampUpTypeImmediate :: string where
  "RampUpTypeImmediate = ''immediate''"

definition RampUpTypeLinear :: string where
  "RampUpTypeLinear = ''linear''"

definition RampUpTypeStep :: string where
  "RampUpTypeStep = ''step''"

definition RampUpTypeCustom :: string where
  "RampUpTypeCustom = ''custom''"

subsection \<open>ValidateRampUpStrategy\<close>

text \<open>
  The errors \<^verbatim>\<open>ValidateRampUpStrategy\<close> builds with \<^verbatim>\<open>fmt.Errorf\<close>, one constructor
  per message; \<open>None\<close> is the \<^verbatim>\<open>nil\<close> error.
\<close>

datatype validation_error =
    InvalidRampUpDuration string
  | NoPhases
  | InvalidPhaseDuration nat
  | NegativePhaseConcurrency nat
  | InvalidPhaseMode nat
  | UnknownStrategyType string

text \<open>The loop over the phases: the first failing check of the first failing phase returns.\<close>

fun validatePhases :: "parser \<Rightarrow> nat \<Rightarrow> RampPhase list \<Rightarrow> validation_error option" where
  "validatePhases pd i [] = None"
| "validatePhases pd i (phase # rest) =
     (if pd (RampPhase.Duration phase) = None then Some (InvalidPhaseDuration i)
      else if Concurrency phase < 0 then Some (NegativePhaseConcurrency i)
      else if Mode phase \<noteq> ''parallel'' \<and> Mode phase \<noteq> ''sequential''
        then Some (InvalidPhaseMode i)
      else validatePhases pd (i + 1) rest)"

definition ValidateRampUpStrategy :: "parser \<Rightarrow> RampUpStrategy \<Rightarrow> validation_error option" where
  "ValidateRampUpStrategy pd strategy =
     (if pd (RampUpStrategy.Duration strategy) = None
        then Some (InvalidRampUpDuration (RampUpStrategy.Duration strategy))
      else if Type strategy = RampUpTypeImmediate \<or> Type strategy = RampUpTypeLinear
        then None
      else if Type strategy = RampUpTypeStep \<or> Type strategy = RampUpTypeCustom
        then (if length (Phases strategy) = 0 then Some NoPhases
              else validatePhases pd 0 (Phases strategy))
      else Some (UnknownStrategyType (Type strategy)))"

text \<open>A phase that one of the three per-phase checks rejects.\<close>

definition badPhase :: "parser \<Rightarrow> RampPhase \<Rightarrow> bool" where
  "badPhase pd phase \<longleftrightarrow>
     pd (RampPhase.Duration phase) = None \<or> Concurrency phase < 0
     \<or> (Mode phase \<noteq> ''parallel'' \<and> Mode phase \<noteq> ''sequential'')"

text \<open>
  The rejection condition in the words of the specification: the six alternatives, the
  three about phases not tied to the strategy type.
\<close>

definition specRejects :: "parser \<Rightarrow> RampUpStrategy \<Rightarrow> bool" where
  "specRejects pd strategy \<longleftrightarrow>
     pd (RampUpStrategy.Duration strategy) = None
     \<or> Type strategy \<notin> {RampUpTypeImmediate, RampUpTypeLinear, RampUpTypeStep, RampUpTypeCustom}
     \<or> ((Type strategy = RampUpTypeStep \<or> Type strategy = RampUpTypeCustom)
          \<and> Phases strategy = [])
     \<or> list_ex (\<lambda>phase. pd (RampPhase.Duration phase) = None) (Phases strategy)
     \<or> list_ex (\<lambda>phase. Concurrency phase < 0) (Phases strategy)
     \<or> list_ex (\<lambda>phase. Mode phase \<noteq> ''parallel'' \<and> Mode phase \<noteq> ''sequential'')
          (Phases strategy)"

subsection \<open>The ramp-up calculator\<close>

record RampUpExecution =
  Strategy :: RampUpStrategy
  StartTime :: int
  CurrentPhase :: int
  TargetConcurrency :: int
  MaxConcurrency :: int

record RampUpCalculator =
  strategy :: RampUpStrategy
  maxConcurrency :: int
  startTime :: int
  duration :: duration

datatype calculator_error = InvalidCalculatorDuration string

text \<open>
  Instants (\<^verbatim>\<open>time.Time\<close>) are nanosecond counts on the process' clock; the zero
  \<^verbatim>\<open>time.Time\<close> of a fresh calculator is 0. A function that reads the clock
  (\<^verbatim>\<open>time.Now\<close>, \<^verbatim>\<open>time.Since\<close>) takes the instant \<open>now\<close> as an argument.
\<close>

definition Since :: "int \<Rightarrow> int \<Rightarrow> duration" where
  "Since now t = now - t"

definition NewRampUpCalculator ::
  "parser \<Rightarrow> RampUpStrategy \<Rightarrow> int \<Rightarrow> calculator_error + RampUpCalculator" where
  "NewRampUpCalculator pd strat maxC =
     (case pd (RampUpStrategy.Duration strat) of
        None \<Rightarrow> Inl (InvalidCalculatorDuration (RampUpStrategy.Duration strat))
      | Some d \<Rightarrow> Inr \<lparr>strategy = strat, maxConcurrency = maxC, startTime = 0, duration = d\<rparr>)"

definition getInitialConcurrency :: "RampUpCalculator \<Rightarrow> int" where
  "getInitialConcurrency calc =
     (if Type (strategy calc) = RampUpTypeImmediate then maxConcurrency calc
      else if Type (strategy calc) = RampUpTypeLinear then 1
      else if Type (strategy calc) = RampUpTypeStep \<or> Type (strategy calc) = RampUpTypeCustom
        then (case Phases (strategy calc) of
                [] \<Rightarrow> 1
              | phase # _ \<Rightarrow> RampPhase.Concurrency phase)
      else maxConcurrency calc)"

definition Start :: "RampUpCalculator \<Rightarrow> int \<Rightarrow> RampUpCalculator \<times> RampUpExecution" where
  "Start calc now =
     (calc\<lparr>startTime := now\<rparr>,
      \<lparr>Strategy = strategy calc, StartTime = now, CurrentPhase = 0,
       TargetConcurrency = getInitialConcurrency calc, MaxConcurrency = maxConcurrency calc\<rparr>)"

text \<open>
  The loop of \<^verbatim>\<open>getPhaseBasedConcurrency\<close>: \<open>i\<close> is the index of the phase at the
  head of the list and \<open>cumulativeDuration\<close> the running sum. A phase whose duration
  does not parse is skipped and adds nothing to the sum. The sum is a 64-bit addition.
\<close>

fun phaseWalk ::
  "parser \<Rightarrow> duration \<Rightarrow> int \<Rightarrow> nat \<Rightarrow> duration \<Rightarrow> RampPhase list \<Rightarrow> RampUpExecution
     \<Rightarrow> int \<times> RampUpExecution" where
  "phaseWalk pd elapsed maxC i cumulativeDuration [] execution = (maxC, execution)"
| "phaseWalk pd elapsed maxC i cumulativeDuration (phase # rest) execution =
     (case pd (RampPhase.Duration phase) of
        None \<Rightarrow> phaseWalk pd elapsed maxC (i + 1) cumulativeDuration rest execution
      | Some phaseDuration \<Rightarrow>
          if elapsed \<le> wrap64 (cumulativeDuration + phaseDuration)
          then (RampPhase.Concurrency phase,
                execution\<lparr>CurrentPhase := int i,
                           TargetConcurrency := RampPhase.Concurrency phase\<rparr>)
          else phaseWalk pd elapsed maxC (i + 1) (wrap64 (cumulativeDuration + phaseDuration))
                 rest execution)"

definition getPhaseBasedConcurrency ::
  "parser \<Rightarrow> RampUpCalculator \<Rightarrow> RampUpExecution \<Rightarrow> duration \<Rightarrow> int \<times> RampUpExecution" where
  "getPhaseBasedConcurrency pd calc execution elapsed =
     (if length (Phases (strategy calc)) = 0 then (maxConcurrency calc, execution)
      else phaseWalk pd elapsed (maxConcurrency calc) 0 0 (Phases (strategy calc)) execution)"

text \<open>
  The linear case multiplies and divides in \<^verbatim>\<open>float64\<close> and converts the product
  back with \<^verbatim>\<open>int(...)\<close>. When the duration is zero the progress is an infinity or
  NaN, and so is its product with the maximum.
\<close>

definition linearConcurrency :: "int \<Rightarrow> duration \<Rightarrow> duration \<Rightarrow> int" where
  "linearConcurrency maxC elapsed d =
     f64_to_int64
       (map_option (f64_mul (f64_of_int maxC)) (f64_quot (f64_of_int elapsed) (f64_of_int d)))"

definition GetCurrentConcurrency ::
  "parser \<Rightarrow> RampUpCalculator \<Rightarrow> RampUpExecution \<Rightarrow> int \<Rightarrow> int \<times> RampUpExecution" where
  "GetCurrentConcurrency pd calc execution now =
     (let elapsed = Since now (StartTime execution)
      in if Type (strategy calc) = RampUpTypeImmediate then (maxConcurrency calc, execution)
         else if Type (strategy calc) = RampUpTypeLinear
           then (if duration calc \<le> elapsed then (maxConcurrency calc, execution)
                 else (linearConcurrency (maxConcurrency calc) elapsed (duration calc), execution))
         else if Type (strategy calc) = RampUpTypeStep \<or> Type (strategy calc) = RampUpTypeCustom
           then getPhaseBasedConcurrency pd calc execution elapsed
         else (maxConcurrency calc, execution))"

definition IsComplete :: "RampUpCalculator \<Rightarrow> RampUpExecution \<Rightarrow> int \<Rightarrow> bool" where
  "IsComplete calc execution now \<longleftrightarrow> duration calc \<le> Since now (StartTime execution)"

definition GetRemainingDuration :: "RampUpCalculator \<Rightarrow> RampUpExecution \<Rightarrow> int \<Rightarrow> duration" where
  "GetRemainingDuration calc execution now =
     (let elapsed = Since now (StartTime execution)
      in if duration calc \<le> elapsed then 0 else duration calc - elapsed)"

subsection \<open>The strategy constructors\<close>

definition CreateDefaultRampUp :: RampUpStrategy where
  "CreateDefaultRampUp = \<lparr>Type = RampUpTypeImmediate, Duration = ''0s'', Phases = []\<rparr>"

definition parseOrDefault :: "parser \<Rightarrow> string \<Rightarrow> duration \<Rightarrow> duration" where
  "parseOrDefault pd d defaultDuration = (case pd d of Some x \<Rightarrow> x | None \<Rightarrow> defaultDuration)"

text \<open>
  The loop of \<^verbatim>\<open>CreateStepRampUp\<close> writes slot \<open>i\<close> of the slice that \<^verbatim>\<open>make\<close>
  filled with zero phases. Its product \<open>(i + 1) * 100\<close> is a 64-bit product.
\<close>

definition zeroPhase :: RampPhase where
  "zeroPhase = \<lparr>RampPhase.Duration = [], Concurrency = 0, Mode = []\<rparr>"

function stepLoop :: "string \<Rightarrow> int \<Rightarrow> int \<Rightarrow> RampPhase list \<Rightarrow> RampPhase list" where
  "stepLoop stepDuration steps i phases =
     (if i < steps
      then stepLoop stepDuration steps (i + 1)
             (phases[nat i := \<lparr>RampPhase.Duration = stepDuration,
                               Concurrency = goQuot (wrap64 ((i + 1) * 100)) steps,
                               Mode = ''parallel''\<rparr>])
      else phases)"
  by pat_completeness auto
termination
  by (relation "measure (\<lambda>(stepDuration, steps, i, phases). nat (steps - i))") auto

declare stepLoop.simps [simp del]

definition stepCount :: "int \<Rightarrow> int" where
  "stepCount steps = (if steps \<le> 0 then 3 else steps)"

definition stepDurationLabel :: "parser \<Rightarrow> string \<Rightarrow> int \<Rightarrow> string" where
  "stepDurationLabel pd d steps =
     SprintF0 (f64_div (Seconds (parseOrDefault pd d (60 * Second))) (f64_of_int steps)) @ ''s''"

text \<open>
  \<^verbatim>\<open>CreateStepRampUp\<close> makes the slice first: it panics there when the runtime cannot
  make a slice of that many phases.
\<close>

definition CreateStepRampUp ::
  "Runtime \<Rightarrow> parser \<Rightarrow> string \<Rightarrow> int \<Rightarrow> go_panic + RampUpStrategy" where
  "CreateStepRampUp rt pd d steps0 =
     (let steps = stepCount steps0
      in if steps < 0 \<or> \<not> canMakePhases rt steps then Inl MakeSliceLenOutOfRange
         else let phases = replicate (nat steps) zeroPhase;
                  stepDuration = stepDurationLabel pd d steps
              in Inr \<lparr>Type = RampUpTypeStep, Duration = d,
                      Phases = stepLoop stepDuration steps 0 phases\<rparr>)"

text \<open>
  The formulas in the words of the specification: the concurrency of step \<open>k\<close> of \<open>n\<close>
  is \<open>k * max / n\<close> rounded to the nearest integer, and the linear target is the floor
  of \<open>max * min 1 (elapsed / d)\<close>.
\<close>

definition specStepConcurrency :: "int \<Rightarrow> int \<Rightarrow> int \<Rightarrow> int" where
  "specStepConcurrency maxC n k = (2 * (k * maxC) + n) div (2 * n)"

definition specLinearConcurrency :: "int \<Rightarrow> duration \<Rightarrow> duration \<Rightarrow> int" where
  "specLinearConcurrency maxC elapsed d =
     (if d \<le> elapsed then maxC else (maxC * elapsed) div d)"

text \<open>
  The phase target in the words of the specification. \<open>phaseEnd pd phases k\<close> is the sum
  of the durations of the phases before phase \<open>k\<close> plus the duration of phase \<open>k\<close>; the
  active phase is the first one whose end is not before \<open>elapsed\<close>, and past all phases
  the target is the maximum. \<open>phasesInRange\<close> says that every phase duration parses and
  that every phase end is a 64-bit value (below about 292 years).
\<close>

definition phaseDurations :: "parser \<Rightarrow> RampPhase list \<Rightarrow> duration list" where
  "phaseDurations pd phases =
     map (\<lambda>phase. case pd (RampPhase.Duration phase) of Some d \<Rightarrow> d | None \<Rightarrow> 0) phases"

definition phaseEnd :: "parser \<Rightarrow> RampPhase list \<Rightarrow> nat \<Rightarrow> duration" where
  "phaseEnd pd phases k =
     sum_list (take k (phaseDurations pd phases)) + phaseDurations pd phases ! k"

definition specPhaseTarget :: "parser \<Rightarrow> RampPhase list \<Rightarrow> int \<Rightarrow> duration \<Rightarrow> int" where
  "specPhaseTarget pd phases maxC elapsed =
     (case find (\<lambda>k. elapsed \<le> phaseEnd pd phases k) [0..<length phases] of
        Some k \<Rightarrow> RampPhase.Concurrency (phases ! k)
      | None \<Rightarrow> maxC)"

definition phasesInRange :: "parser \<Rightarrow> RampPhase list \<Rightarrow> bool" where
  "phasesInRange pd phases \<longleftrightarrow>
     list_all (\<lambda>phase. pd (RampPhase.Duration phase) \<noteq> None) phases
     \<and> list_all (\<lambda>k. in64 (phaseEnd pd phases k)) [0..<length phases]"

subsection \<open>Example strategies\<close>

text \<open>
  A custom strategy of two phases of five seconds, at concurrencies 10 and 20, for an
  agent of capacity 50, and its calculator and execution started at instant 0.
\<close>

definition twoPhaseStrategy :: RampUpStrategy where
  "twoPhaseStrategy =
     \<lparr>Type = ''custom'', Duration = ''10s'',
      Phases = [\<lparr>RampPhase.Duration = ''5s'', Concurrency = 10, Mode = ''parallel''\<rparr>,
                \<lparr>RampPhase.Duration = ''5s'', Concurrency = 20, Mode = ''sequential''\<rparr>]\<rparr>"

definition twoPhaseCalculator :: RampUpCalculator where
  "twoPhaseCalculator =
     \<lparr>strategy = twoPhaseStrategy, maxConcurrency = 50, startTime = 0,
      duration = 10000000000\<rparr>"

definition twoPhaseExecution :: RampUpExecution where
  "twoPhaseExecution = snd (Start twoPhaseCalculator 0)"

text \<open>
  A linear strategy of ten seconds for an agent of capacity 100 (the scenario S3), with
  its calculator and execution started at instant 0, and a custom strategy whose only
  phase asks for more than the capacity.
\<close>

definition linearStrategy :: RampUpStrategy where
  "linearStrategy = \<lparr>Type = ''linear'', Duration = ''10s'', Phases = []\<rparr>"

definition linearCalculator :: RampUpCalculator where
  "linearCalculator =
     \<lparr>strategy = linearStrategy, maxConcurrency = 100, startTime = 0, duration = 10000000000\<rparr>"

definition linearExecution :: RampUpExecution where
  "linearExecution = snd (Start linearCalculator 0)"

definition cappedStrategy :: RampUpStrategy where
  "cappedStrategy =
     \<lparr>Type = ''custom'', Duration = ''5s'',
      Phases = [\<lparr>RampPhase.Duration = ''5s'', Concurrency = 200, Mode = ''parallel''\<rparr>]\<rparr>"


section \<open>The message bus\<close>

text \<open>
  Agents and coordinator exchange JSON messages over NATS subjects. The program uses
  literal subjects only (no wildcard), so a subscription receives a message exactly when
  the two subject strings are equal. A published message is its subject and its payload;
  the payloads are kept as the Go values that \<^verbatim>\<open>json.Marshal\<close> encodes.
\<close>

record PhaseInfo =
  PhaseIndex :: int
  PhaseID :: string
  Mode :: string
  Concurrency :: int
  Duration :: string
  AgentOrder :: "string list"

record TestStartCommand =
  TestRunID :: string
  Command :: string
  CurrentPhase :: "PhaseInfo option"

record PhaseCompletion =
  AgentID :: string
  PhaseID :: string
  PhaseIndex :: int
  CompletedAt :: string

text \<open>The map that \<^verbatim>\<open>sendExecutionUpdate\<close> marshals; \<open>test_run_id\<close> may be absent.\<close>

record ExecutionUpdateJSON =
  agent_id :: string
  timestamp :: string
  status :: string
  message :: string
  test_run_id :: "string option"

datatype payload =
    CommandPayload TestStartCommand
  | CompletionPayload PhaseCompletion
  | ExecutionPayload ExecutionUpdateJSON

record published =
  subject :: string
  body :: payload

section \<open>The agent\<close>

subsection \<open>Metrics\<close>

text \<open>
  \<^verbatim>\<open>AgentMetrics\<close>. The counters are \<^verbatim>\<open>int64\<close>; they grow by one per HTTP request
  and cannot reach \<open>2 ^ 63\<close>, so they are plain integers. \<^verbatim>\<open>StatusCodes\<close> is a Go map
  from the decimal rendering of the status code to its count, kept as an association
  list with one entry per key.
\<close>

record AgentMetrics =
  AgentID :: string
  Timestamp :: string
  Requests :: int
  Errors :: int
  AvgLatencyMs :: f64
  MinLatencyMs :: f64
  MaxLatencyMs :: f64
  StatusCodes :: "(string \<times> int) list"
  totalLatency :: f64

text \<open>\<^verbatim>\<open>m[key] += n\<close> on a Go map: a missing key counts as 0.\<close>

fun addCount :: "string \<Rightarrow> int \<Rightarrow> (string \<times> int) list \<Rightarrow> (string \<times> int) list" where
  "addCount key n [] = [(key, n)]"
| "addCount key n ((k, v) # rest) =
     (if k = key then (k, v + n) # rest else (k, v) # addCount key n rest)"

definition recordRequest :: "AgentMetrics \<Rightarrow> int \<Rightarrow> duration \<Rightarrow> AgentMetrics" where
  "recordRequest m statusCode latency =
     (let latencyMs = f64_of_int (Milliseconds latency);
          requests = AgentMetrics.Requests m + 1;
          total = f64_add (totalLatency m) latencyMs;
          m1 = m\<lparr>AgentMetrics.Requests := requests, totalLatency := total,
                 AgentMetrics.AvgLatencyMs := f64_div total (f64_of_int requests)\<rparr>;
          m2 = (if requests = 1
                then m1\<lparr>AgentMetrics.MinLatencyMs := latencyMs,
                        AgentMetrics.MaxLatencyMs := latencyMs\<rparr>
                else (let m3 = (if f64_less latencyMs (AgentMetrics.MinLatencyMs m1)
                                then m1\<lparr>AgentMetrics.MinLatencyMs := latencyMs\<rparr> else m1)
                      in if f64_less (AgentMetrics.MaxLatencyMs m3) latencyMs
                         then m3\<lparr>AgentMetrics.MaxLatencyMs := latencyMs\<rparr> else m3))
      in m2\<lparr>AgentMetrics.StatusCodes :=
               addCount (Sprintd statusCode) 1 (AgentMetrics.StatusCodes m2)\<rparr>)"

definition recordError :: "AgentMetrics \<Rightarrow> AgentMetrics" where
  "recordError m = m\<lparr>AgentMetrics.Errors := AgentMetrics.Errors m + 1\<rparr>"

definition resetMetrics :: "AgentMetrics \<Rightarrow> AgentMetrics" where
  "resetMetrics m =
     m\<lparr>AgentMetrics.Requests := 0, AgentMetrics.Errors := 0,
       AgentMetrics.AvgLatencyMs := f64_zero, AgentMetrics.MinLatencyMs := f64_zero,
       AgentMetrics.MaxLatencyMs := f64_zero, totalLatency := f64_zero,
       AgentMetrics.StatusCodes := []\<rparr>"

text \<open>
  \<^verbatim>\<open>reportMetrics\<close> publishes the metrics as a telemetry snapshot, stamped with the
  formatted clock reading \<open>stamp\<close>, unless no request has been recorded. \<open>None\<close> is the
  early return.
\<close>

definition reportMetrics :: "AgentMetrics \<Rightarrow> string \<Rightarrow> AgentMetrics option" where
  "reportMetrics m stamp =
     (if AgentMetrics.Requests m = 0 then None
      else Some (m\<lparr>AgentMetrics.Timestamp := stamp\<rparr>))"

text \<open>
  The recording calls an agent makes during a run, in the order the metrics lock
  serialises them: \<^verbatim>\<open>executeRequest\<close> ends in \<^verbatim>\<open>recordRequest\<close> when a response
  arrived and in \<^verbatim>\<open>recordError\<close> when the request could not be built or sent.
\<close>

datatype recording = RecordRequest int duration | RecordError

fun record_one :: "AgentMetrics \<Rightarrow> recording \<Rightarrow> AgentMetrics" where
  "record_one m (RecordRequest statusCode latency) = recordRequest m statusCode latency"
| "record_one m RecordError = recordError m"

definition recorded :: "AgentMetrics \<Rightarrow> recording list \<Rightarrow> AgentMetrics" where
  "recorded m rs = foldl record_one (resetMetrics m) rs"

definition freshMetrics :: "string \<Rightarrow> AgentMetrics" where
  "freshMetrics agentID =
     \<lparr>AgentID = agentID, Timestamp = [], Requests = 0, Errors = 0, AvgLatencyMs = f64_zero,
      MinLatencyMs = f64_zero, MaxLatencyMs = f64_zero, StatusCodes = [],
      totalLatency = f64_zero\<rparr>"

subsection \<open>Phases on the agent\<close>

text \<open>
  The fields of \<^verbatim>\<open>Agent\<close> that the functions below read or write. \<open>phaseStopCh\<close> says
  whether an open stop channel is installed.
\<close>

record Agent =
  id :: string
  concurrency :: int
  currentTestRunID :: string
  currentPhase :: "PhaseInfo option"
  phaseStopCh :: bool
  metrics :: AgentMetrics

text \<open>
  \<^verbatim>\<open>sendExecutionUpdate\<close> hands one message to the bus; \<open>stamp\<close> is the formatted clock
  reading.
\<close>

definition sendExecutionUpdate :: "Agent \<Rightarrow> string \<Rightarrow> string \<Rightarrow> string \<Rightarrow> published" where
  "sendExecutionUpdate a stamp st msg =
     \<lparr>subject = ''armonite.agent.status'',
      body = ExecutionPayload
        \<lparr>agent_id = id a, timestamp = stamp, status = st, message = msg,
         test_run_id = (if currentTestRunID a \<noteq> [] then Some (currentTestRunID a) else None)\<rparr>\<rparr>"

text \<open>
  What one phase run amounts to: the identifiers of the worker goroutines started, the
  capacity of the request queue, the length of the phase timer and the messages
  published. The capacity of the queue is a 64-bit product; \<^verbatim>\<open>make\<close> panics when it
  is negative or more than the runtime can allocate, and the program stops when the
  runtime cannot start the workers. The bodies of the workers and of the request
  generator, and the wait for the timer or the stop channel, are concurrent activity
  outside this model.
\<close>

record PhaseRun =
  workers :: "int list"
  queueCapacity :: int
  timer :: duration
  sent :: "published list"

function spawnWorkers :: "int \<Rightarrow> int \<Rightarrow> int list \<Rightarrow> int list" where
  "spawnWorkers i n started =
     (if i < n then spawnWorkers (i + 1) n (started @ [i]) else started)"
  by pat_completeness auto
termination
  by (relation "measure (\<lambda>(i, n, started). nat (n - i))") auto

declare spawnWorkers.simps [simp del]

definition executePhaseLoad ::
  "Runtime \<Rightarrow> (duration \<Rightarrow> string) \<Rightarrow> Agent \<Rightarrow> int \<Rightarrow> duration \<Rightarrow> PhaseInfo \<Rightarrow> string
     \<Rightarrow> go_panic + PhaseRun" where
  "executePhaseLoad rt ds a conc d phase stamp =
     (let update = sendExecutionUpdate a stamp ''running''
            (''Phase '' @ Sprintd (PhaseInfo.PhaseIndex phase) @ '': '' @ PhaseInfo.Mode phase
             @ '' mode, '' @ Sprintd conc @ '' workers, '' @ ds d @ '' duration'')
      in if wrap64 (conc * 10) < 0 \<or> \<not> canMakeQueue rt (wrap64 (conc * 10))
           then Inl MakeChanSizeOutOfRange
         else if 0 < conc \<and> \<not> canStartWorkers rt conc then Inl OutOfMemory
         else Inr \<lparr>workers = spawnWorkers 0 conc [], queueCapacity = wrap64 (conc * 10),
                   timer = d, sent = [update]\<rparr>)"

text \<open>
  \<^verbatim>\<open>executePhase\<close> handles START_PHASE. A nil phase is logged and nothing runs
  (\<open>None\<close>). Otherwise the phase concurrency is capped at the agent's own, the phase runs,
  and the completion is published.
\<close>

definition executePhase ::
  "Runtime \<Rightarrow> parser \<Rightarrow> (duration \<Rightarrow> string) \<Rightarrow> Agent \<Rightarrow> PhaseInfo option \<Rightarrow> string
     \<Rightarrow> go_panic + Agent \<times> PhaseRun option" where
  "executePhase rt pd ds a phaseOpt stamp =
     (case phaseOpt of
        None \<Rightarrow> Inr (a, None)
      | Some phase \<Rightarrow>
          (let a1 = a\<lparr>currentPhase := Some phase, phaseStopCh := True\<rparr>;
               phaseConcurrency =
                 (if concurrency a1 < PhaseInfo.Concurrency phase then concurrency a1
                  else PhaseInfo.Concurrency phase);
               d = (case pd (PhaseInfo.Duration phase) of
                      None \<Rightarrow> 30 * Second
                    | Some parsed \<Rightarrow> parsed)
           in case executePhaseLoad rt ds a1 phaseConcurrency d phase stamp of
                Inl p \<Rightarrow> Inl p
              | Inr run \<Rightarrow>
                  Inr (a1, Some (run\<lparr>sent := sent run @
                     [\<lparr>subject = ''armonite.phase.complete.'' @ currentTestRunID a1,
                       body = CompletionPayload
                         \<lparr>PhaseCompletion.AgentID = id a1, PhaseID = PhaseInfo.PhaseID phase,
                          PhaseIndex = PhaseInfo.PhaseIndex phase,
                          CompletedAt = stamp\<rparr>\<rparr>]\<rparr>))))"

text \<open>\<^verbatim>\<open>handleAgentCommand\<close> dispatches the per-agent commands.\<close>

definition stopCurrentPhase :: "Agent \<Rightarrow> Agent" where
  "stopCurrentPhase a = (if phaseStopCh a then a\<lparr>phaseStopCh := False\<rparr> else a)"

definition handleAgentCommand ::
  "Runtime \<Rightarrow> parser \<Rightarrow> (duration \<Rightarrow> string) \<Rightarrow> Agent \<Rightarrow> TestStartCommand \<Rightarrow> string
     \<Rightarrow> go_panic + Agent \<times> PhaseRun option" where
  "handleAgentCommand rt pd ds a command stamp =
     (if Command command = ''START_PHASE''
        then executePhase rt pd ds a (CurrentPhase command) stamp
      else if Command command = ''STOP_PHASE'' then Inr (stopCurrentPhase a, None)
      else Inr (a, None))"

text \<open>
  An instance of \<^verbatim>\<open>Duration.String\<close> for the closed examples: it renders the whole
  seconds of a duration, as \<^verbatim>\<open>String\<close> does for the whole seconds from 0 to 59 that
  the examples use.
\<close>

definition wholeSecondsString :: "duration \<Rightarrow> string" where
  "wholeSecondsString d = Sprintd (goQuot d Second) @ ''s''"

section \<open>The coordinator\<close>

subsection \<open>State\<close>

record AgentInfo =
  ID :: string
  Region :: string
  ConnectedAt :: int
  LastSeen :: int
  Concurrency :: int
  ExecutionState :: string
  RampUpExecution :: "RampUpExecution option"

record AgentResult =
  AgentID :: string
  Region :: string
  Requests :: int
  Errors :: int
  AvgLatencyMs :: f64
  MinLatencyMs :: f64
  MaxLatencyMs :: f64
  StatusCodes :: "(string \<times> int) list"

record TestRunResults =
  TotalRequests :: int
  TotalErrors :: int
  SuccessRate :: f64
  AvgLatencyMs :: f64
  MinLatencyMs :: f64
  MaxLatencyMs :: f64
  RequestsPerSec :: f64
  StatusCodes :: "(string \<times> int) list"
  AgentResults :: "AgentResult list"

text \<open>
  \<^verbatim>\<open>TestPlan\<close> without its endpoints and \<^verbatim>\<open>TestRun\<close> without its opaque parameters:
  no function below reads them. \<^verbatim>\<open>TestRunStatus\<close> is a Go string type.
\<close>

record TestPlan =
  Name :: string
  Duration :: string
  Concurrency :: int
  RampUpStrategy :: "RampUpStrategy option"

record TestRun =
  ID :: string
  Name :: string
  TestPlan :: TestPlan
  Status :: string
  CreatedAt :: int
  StartedAt :: "int option"
  CompletedAt :: "int option"
  Duration :: "string option"
  Results :: "TestRunResults option"
  AgentCount :: int

definition TestRunStatusCreated :: string where
  "TestRunStatusCreated = ''created''"

definition TestRunStatusWaiting :: string where
  "TestRunStatusWaiting = ''waiting_for_agents''"

definition TestRunStatusRunning :: string where
  "TestRunStatusRunning = ''running''"

definition TestRunStatusCompleting :: string where
  "TestRunStatusCompleting = ''completing''"

definition TestRunStatusCompleted :: string where
  "TestRunStatusCompleted = ''completed''"

definition TestRunStatusFailed :: string where
  "TestRunStatusFailed = ''failed''"

definition TestRunStatusCancelled :: string where
  "TestRunStatusCancelled = ''cancelled''"

text \<open>
  The persistence layer as its two tables, keyed by run id. \<open>failing\<close> stands for a
  database whose statements return an error and change nothing; the callers log the
  error and go on.
\<close>

record Database =
  test_runs :: "string \<rightharpoonup> TestRun"
  agent_results :: "string \<rightharpoonup> AgentResult list"
  failing :: bool

definition SaveTestRun :: "Database \<Rightarrow> TestRun \<Rightarrow> Database" where
  "SaveTestRun db testRun =
     (if failing db then db
      else db\<lparr>test_runs := (test_runs db)(TestRun.ID testRun \<mapsto> testRun)\<rparr>)"

definition DeleteTestRun :: "Database \<Rightarrow> string \<Rightarrow> Database" where
  "DeleteTestRun db testRunID =
     (if failing db then db
      else db\<lparr>agent_results := (agent_results db)(testRunID := None),
              test_runs := (test_runs db)(testRunID := None)\<rparr>)"

text \<open>
  \<^verbatim>\<open>Coordinator\<close>. \<open>currentTestRun\<close> is a pointer to one of the runs of \<open>testRuns\<close>; the
  functions below read only its id, which is what is kept. \<open>phaseOrchestrator\<close> says
  whether an orchestrator is installed.
\<close>

record Coordinator =
  database :: Database
  connectedAgents :: "string \<rightharpoonup> AgentInfo"
  testRuns :: "string \<rightharpoonup> TestRun"
  currentTestRun :: "string option"
  agentResults :: "string \<rightharpoonup> AgentResult list"
  phaseOrchestrator :: bool

subsection \<open>Agent registry\<close>

record AgentExecutionUpdate =
  AgentID :: string
  Status :: string
  Message :: string
  Timestamp :: string

definition handleAgentExecutionUpdate :: "Coordinator \<Rightarrow> AgentExecutionUpdate \<Rightarrow> Coordinator" where
  "handleAgentExecutionUpdate c update =
     (case connectedAgents c (AgentExecutionUpdate.AgentID update) of
        None \<Rightarrow> c
      | Some agent \<Rightarrow>
          c\<lparr>connectedAgents := (connectedAgents c)(AgentExecutionUpdate.AgentID update \<mapsto>
               agent\<lparr>ExecutionState :=
                 (if AgentExecutionUpdate.Status update = ''completed'' then ''idle''
                  else AgentExecutionUpdate.Status update)\<rparr>)\<rparr>)"

text \<open>
  \<^verbatim>\<open>json.Unmarshal\<close> into \<^verbatim>\<open>AgentExecutionUpdate\<close>: the four tagged fields are read
  from a JSON object and other keys are ignored; a payload without a key leaves the
  field empty.
\<close>

fun decodeExecutionUpdate :: "payload \<Rightarrow> AgentExecutionUpdate" where
  "decodeExecutionUpdate (ExecutionPayload u) =
     \<lparr>AgentExecutionUpdate.AgentID = agent_id u, Status = status u, Message = message u,
      Timestamp = timestamp u\<rparr>"
| "decodeExecutionUpdate (CompletionPayload p) =
     \<lparr>AgentExecutionUpdate.AgentID = PhaseCompletion.AgentID p, Status = [], Message = [],
      Timestamp = []\<rparr>"
| "decodeExecutionUpdate (CommandPayload p) =
     \<lparr>AgentExecutionUpdate.AgentID = [], Status = [], Message = [], Timestamp = []\<rparr>"

text \<open>
  The subscription for execution updates that \<^verbatim>\<open>startAgentRegistration\<close> installs, as
  what it does with a message the bus carries: the callback runs when the message's
  subject is the subscribed one, and otherwise the message does not reach it. (The
  subscriptions for registrations and heartbeats, on their own subjects, are not
  modelled.)
\<close>

definition executionUpdateSubject :: string where
  "executionUpdateSubject = ''armonite.agent.execution''"

definition onExecutionSubscription :: "Coordinator \<Rightarrow> published \<Rightarrow> Coordinator" where
  "onExecutionSubscription c msg =
     (if subject msg = executionUpdateSubject
      then handleAgentExecutionUpdate c (decodeExecutionUpdate (body msg))
      else c)"

text \<open>
  Every subject the coordinator's code subscribes to: the three of
  \<^verbatim>\<open>startAgentRegistration\<close>, the telemetry and internal subjects, and the phase
  completions of the run being orchestrated.
\<close>

definition coordinatorSubjects :: "string \<Rightarrow> string list" where
  "coordinatorSubjects runID =
     [''armonite.agent.register'', ''armonite.agent.heartbeat'', executionUpdateSubject,
      ''armonite.telemetry'', ''armonite.coordinator.internal'',
      ''armonite.phase.complete.'' @ runID]"

subsection \<open>Deleting a test run\<close>

text \<open>An HTTP response: the status code and the fields of the JSON object.\<close>

record Response =
  statusCode :: nat
  json :: "(string \<times> string) list"

definition StatusOK :: nat where
  "StatusOK = 200"

definition StatusBadRequest :: nat where
  "StatusBadRequest = 400"

definition StatusNotFound :: nat where
  "StatusNotFound = 404"

definition StatusConflict :: nat where
  "StatusConflict = 409"

definition handleDeleteTestRun :: "Coordinator \<Rightarrow> string \<Rightarrow> Coordinator \<times> Response" where
  "handleDeleteTestRun c testRunID =
     (case testRuns c testRunID of
        None \<Rightarrow>
          (c, \<lparr>statusCode = StatusNotFound, json = [(''error'', ''Test run not found'')]\<rparr>)
      | Some testRun \<Rightarrow>
          if TestRun.Status testRun = TestRunStatusRunning
             \<or> TestRun.Status testRun = TestRunStatusWaiting
          then (c, \<lparr>statusCode = StatusBadRequest,
                     json = [(''error'', ''Cannot delete active test run''),
                             (''status'', TestRun.Status testRun)]\<rparr>)
          else (c\<lparr>currentTestRun :=
                      (if currentTestRun c = Some testRunID then None else currentTestRun c),
                   database := DeleteTestRun (database c) testRunID,
                   testRuns := (testRuns c)(testRunID := None),
                   agentResults := (agentResults c)(testRunID := None)\<rparr>,
                \<lparr>statusCode = StatusOK, json = [(''message'', ''Test run deleted'')]\<rparr>))"

subsection \<open>Completing a test run\<close>

text \<open>The running totals of the aggregation loop of \<^verbatim>\<open>completeTestRun\<close>.\<close>

record Totals =
  totalRequests :: int
  totalErrors :: int
  totalLatencySum :: f64
  minLatency :: f64
  maxLatency :: f64
  statusCodes :: "(string \<times> int) list"

fun aggregate :: "Totals \<Rightarrow> AgentResult list \<Rightarrow> Totals" where
  "aggregate t [] = t"
| "aggregate t (result # rest) =
     aggregate
       \<lparr>totalRequests = totalRequests t + AgentResult.Requests result,
        totalErrors = totalErrors t + AgentResult.Errors result,
        totalLatencySum =
          f64_add (totalLatencySum t)
            (f64_mul (AgentResult.AvgLatencyMs result) (f64_of_int (AgentResult.Requests result))),
        minLatency =
          (if f64_less f64_zero (AgentResult.MinLatencyMs result)
              \<and> (f64_eq (minLatency t) f64_zero
                   \<or> f64_less (AgentResult.MinLatencyMs result) (minLatency t))
           then AgentResult.MinLatencyMs result else minLatency t),
        maxLatency =
          (if f64_less (maxLatency t) (AgentResult.MaxLatencyMs result)
           then AgentResult.MaxLatencyMs result else maxLatency t),
        statusCodes =
          foldl (\<lambda>codes (code, count). addCount code count codes) (statusCodes t)
            (AgentResult.StatusCodes result)\<rparr>
       rest"

definition initialTotals :: "AgentResult list \<Rightarrow> Totals" where
  "initialTotals results =
     \<lparr>totalRequests = 0, totalErrors = 0, totalLatencySum = f64_zero,
      minLatency = (case results of [] \<Rightarrow> f64_zero | r # _ \<Rightarrow> AgentResult.MinLatencyMs r),
      maxLatency = (case results of [] \<Rightarrow> f64_zero | r # _ \<Rightarrow> AgentResult.MaxLatencyMs r),
      statusCodes = []\<rparr>"

text \<open>
  The results record as \<^verbatim>\<open>completeTestRun\<close> computes it from the run (read before it
  is marked complete) and the per-agent results.
\<close>

definition computeResults :: "TestRun \<Rightarrow> AgentResult list \<Rightarrow> TestRunResults" where
  "computeResults testRun results =
     (let t = aggregate (initialTotals results) results;
          avgLatency =
            (if 0 < totalRequests t
             then f64_div (totalLatencySum t) (f64_of_int (totalRequests t)) else f64_zero);
          successRate =
            (if 0 < totalRequests t
             then f64_mul (f64_div (f64_of_int (totalRequests t - totalErrors t))
                                   (f64_of_int (totalRequests t)))
                          (f64_of_int 100)
             else f64_of_int 100);
          requestsPerSec =
            (case (TestRun.StartedAt testRun, TestRun.CompletedAt testRun) of
               (Some started, Some completed) \<Rightarrow>
                 (let durationSeconds = Seconds (completed - started)
                  in if f64_less f64_zero durationSeconds
                     then f64_div (f64_of_int (totalRequests t)) durationSeconds
                     else f64_zero)
             | _ \<Rightarrow> f64_zero)
      in \<lparr>TotalRequests = totalRequests t, TotalErrors = totalErrors t,
          SuccessRate = successRate, AvgLatencyMs = avgLatency,
          MinLatencyMs = minLatency t, MaxLatencyMs = maxLatency t,
          RequestsPerSec = requestsPerSec, StatusCodes = statusCodes t,
          AgentResults = results\<rparr>)"

text \<open>\<^verbatim>\<open>TestRun.Complete\<close>, at the instant \<open>now\<close>.\<close>

definition Complete :: "(duration \<Rightarrow> string) \<Rightarrow> TestRun \<Rightarrow> TestRunResults \<Rightarrow> int \<Rightarrow> TestRun" where
  "Complete ds testRun results now =
     (let done = testRun\<lparr>TestRun.CompletedAt := Some now,
                         TestRun.Status := TestRunStatusCompleted,
                         TestRun.Results := Some results\<rparr>
      in case TestRun.StartedAt testRun of
           None \<Rightarrow> done
         | Some started \<Rightarrow> done\<lparr>TestRun.Duration := Some (ds (now - started))\<rparr>)"

definition completeTestRun ::
  "(duration \<Rightarrow> string) \<Rightarrow> Coordinator \<Rightarrow> string \<Rightarrow> int \<Rightarrow> Coordinator" where
  "completeTestRun ds c testRunID now =
     (case testRuns c testRunID of
        None \<Rightarrow> c
      | Some testRun \<Rightarrow>
          (let results = (case agentResults c testRunID of None \<Rightarrow> [] | Some rs \<Rightarrow> rs);
               completed = Complete ds testRun (computeResults testRun results) now
           in c\<lparr>phaseOrchestrator := False,
                testRuns := (testRuns c)(testRunID \<mapsto> completed),
                database := SaveTestRun (database c) completed,
                currentTestRun :=
                  (if currentTestRun c = Some testRunID then None else currentTestRun c)\<rparr>))"

text \<open>
  The formula of the specification for the rate: the total over the seconds between
  start and completion.
\<close>

definition specRequestsPerSec :: "int \<Rightarrow> int \<Rightarrow> int \<Rightarrow> f64" where
  "specRequestsPerSec n started completed =
     f64_div (f64_of_int n) (Seconds (completed - started))"

section \<open>The phase orchestrator\<close>

text \<open>
  \<^verbatim>\<open>PhaseOrchestrator\<close>. \<open>activeAgents\<close> is a Go map keyed by agent id; what is kept is
  its keys, in the order a \<^verbatim>\<open>range\<close> loop yields them (any order; the keys of a map
  are distinct). \<open>stopAt\<close> is the instant at which the stop channel is closed, if it is.

  Time is a logical clock: \<^verbatim>\<open>time.Sleep\<close> advances it by the duration slept (not at
  all for a duration that is not positive) and the other statements take no time. A
  schedule is the clock and the messages published so far, each with the instant of its
  publication.
\<close>

record PhaseOrchestrator =
  testRunID :: string
  activeAgents :: "string list"
  stopAt :: "int option"

record Schedule =
  clock :: int
  outbox :: "(int \<times> published) list"

definition Sleep :: "duration \<Rightarrow> Schedule \<Rightarrow> Schedule" where
  "Sleep d sched = sched\<lparr>clock := clock sched + max 0 d\<rparr>"

definition stopped :: "PhaseOrchestrator \<Rightarrow> Schedule \<Rightarrow> bool" where
  "stopped po sched = (case stopAt po of None \<Rightarrow> False | Some t \<Rightarrow> t \<le> clock sched)"

definition agentCommandSubject :: "string \<Rightarrow> string" where
  "agentCommandSubject agentID = ''armonite.agent.'' @ agentID @ ''.command''"

definition sendPhaseCommand ::
  "PhaseOrchestrator \<Rightarrow> string \<Rightarrow> string \<Rightarrow> PhaseInfo \<Rightarrow> Schedule \<Rightarrow> Schedule" where
  "sendPhaseCommand po agentID command phase sched =
     sched\<lparr>outbox := outbox sched @
       [(clock sched,
         \<lparr>subject = agentCommandSubject agentID,
          body = CommandPayload
            \<lparr>TestRunID = testRunID po, Command = command, CurrentPhase = Some phase\<rparr>\<rparr>)]\<rparr>"

text \<open>The command that the sequential loop sends to one agent.\<close>

definition sequentialPhaseInfo ::
  "(duration \<Rightarrow> string) \<Rightarrow> int \<Rightarrow> RampPhase \<Rightarrow> string \<Rightarrow> duration \<Rightarrow> string \<Rightarrow> PhaseInfo" where
  "sequentialPhaseInfo ds phaseIndex phase phaseID timePerAgent agentID =
     \<lparr>PhaseInfo.PhaseIndex = phaseIndex, PhaseID = phaseID, Mode = RampPhase.Mode phase,
      Concurrency = RampPhase.Concurrency phase, Duration = ds timePerAgent,
      AgentOrder = [agentID]\<rparr>"

text \<open>The loop over the sorted agent ids; \<open>i\<close> is the index of the head of the list.\<close>

fun sequentialLoop ::
  "(duration \<Rightarrow> string) \<Rightarrow> PhaseOrchestrator \<Rightarrow> int \<Rightarrow> RampPhase \<Rightarrow> string \<Rightarrow> duration
     \<Rightarrow> nat \<Rightarrow> string list \<Rightarrow> Schedule \<Rightarrow> Schedule" where
  "sequentialLoop ds po phaseIndex phase phaseID timePerAgent i [] sched = sched"
| "sequentialLoop ds po phaseIndex phase phaseID timePerAgent i (agentID # rest) sched =
     (if stopped po sched then sched
      else sequentialLoop ds po phaseIndex phase phaseID timePerAgent (i + 1) rest
             (sendPhaseCommand po agentID ''START_PHASE''
                (sequentialPhaseInfo ds phaseIndex phase phaseID timePerAgent agentID)
                (if 0 < i then Sleep timePerAgent sched else sched)))"

text \<open>
  \<^verbatim>\<open>sort.Strings\<close> orders strings byte by byte, which is the order of \<open>sort\<close> on
  \<open>string\<close> here (lexicographic on the character codes).
\<close>

definition executeSequentialPhase ::
  "parser \<Rightarrow> (duration \<Rightarrow> string) \<Rightarrow> PhaseOrchestrator \<Rightarrow> int \<Rightarrow> RampPhase \<Rightarrow> string
     \<Rightarrow> Schedule \<Rightarrow> Schedule" where
  "executeSequentialPhase pd ds po phaseIndex phase phaseID sched =
     (let agentIDs = sort (activeAgents po)
      in if length agentIDs = 0 then sched
         else (let phaseDuration = (case pd (RampPhase.Duration phase) of
                                      None \<Rightarrow> 30 * Second
                                    | Some d \<Rightarrow> d);
                   timePerAgent = goQuot phaseDuration (int (length agentIDs))
               in sequentialLoop ds po phaseIndex phase phaseID timePerAgent 0 agentIDs sched))"

text \<open>
  The schedule the specification describes for a sequential phase entered at instant
  \<open>t0\<close>: the \<open>k\<close>-th agent of the sorted list gets its START_PHASE command, carrying
  the duration \<open>perAgent\<close>, at \<open>t0 + k * perAgent\<close>.
\<close>

definition sendAt ::
  "(duration \<Rightarrow> string) \<Rightarrow> PhaseOrchestrator \<Rightarrow> int \<Rightarrow> RampPhase \<Rightarrow> string \<Rightarrow> duration
     \<Rightarrow> int \<Rightarrow> string \<Rightarrow> int \<times> published" where
  "sendAt ds po phaseIndex phase phaseID perAgent t agentID =
     (t, \<lparr>subject = agentCommandSubject agentID,
          body = CommandPayload
            \<lparr>TestRunID = testRunID po, Command = ''START_PHASE'',
             CurrentPhase = Some (sequentialPhaseInfo ds phaseIndex phase phaseID
                                    perAgent agentID)\<rparr>\<rparr>)"

definition specSequentialSends ::
  "(duration \<Rightarrow> string) \<Rightarrow> PhaseOrchestrator \<Rightarrow> int \<Rightarrow> RampPhase \<Rightarrow> string \<Rightarrow> int
     \<Rightarrow> duration \<Rightarrow> string list \<Rightarrow> (int \<times> published) list" where
  "specSequentialSends ds po phaseIndex phase phaseID t0 perAgent agentIDs =
     map (\<lambda>k. sendAt ds po phaseIndex phase phaseID perAgent (t0 + int k * perAgent)
                (agentIDs ! k))
         [0..<length agentIDs]"

text \<open>The scenario S4: agents \<open>c\<close>, \<open>a\<close>, \<open>b\<close> and one sequential phase of nine seconds.\<close>

definition s4Orchestrator :: PhaseOrchestrator where
  "s4Orchestrator = \<lparr>testRunID = ''run'', activeAgents = [''c'', ''a'', ''b''], stopAt = None\<rparr>"

definition s4Phase :: RampPhase where
  "s4Phase = \<lparr>RampPhase.Duration = ''9s'', Concurrency = 10, Mode = ''sequential''\<rparr>"

section \<open>Example states\<close>

text \<open>
  An agent of capacity 5 in run \<open>r1\<close>, a phase command asking for 8 workers, and a
  coordinator that has this agent registered and the run \<open>r1\<close> running since instant 0,
  with one per-agent result of 10 requests.
\<close>

definition exampleAgent :: Agent where
  "exampleAgent =
     \<lparr>id = ''agent-1'', concurrency = 5, currentTestRunID = ''r1'', currentPhase = None,
      phaseStopCh = False, metrics = freshMetrics ''agent-1''\<rparr>"

definition examplePhaseInfo :: PhaseInfo where
  "examplePhaseInfo =
     \<lparr>PhaseInfo.PhaseIndex = 0, PhaseID = ''r1-phase-0'', Mode = ''sequential'',
      Concurrency = 8, Duration = ''3s'', AgentOrder = [''agent-1'']\<rparr>"

definition examplePhaseCommand :: TestStartCommand where
  "examplePhaseCommand =
     \<lparr>TestRunID = ''r1'', Command = ''START_PHASE'', CurrentPhase = Some examplePhaseInfo\<rparr>"

definition exampleRun :: TestRun where
  "exampleRun =
     \<lparr>TestRun.ID = ''r1'', Name = ''load'',
      TestPlan = \<lparr>TestPlan.Name = ''load'', Duration = ''2s'', Concurrency = 5,
                  RampUpStrategy = None\<rparr>,
      Status = ''running'', CreatedAt = 0, StartedAt = Some 0, CompletedAt = None,
      Duration = None, Results = None, AgentCount = 1\<rparr>"

definition exampleResult :: AgentResult where
  "exampleResult =
     \<lparr>AgentResult.AgentID = ''agent-1'', Region = ''eu'', Requests = 10, Errors = 1,
      AvgLatencyMs = f64_of_int 20, MinLatencyMs = f64_of_int 5, MaxLatencyMs = f64_of_int 40,
      StatusCodes = [(''200'', 10)]\<rparr>"

definition exampleCoordinator :: Coordinator where
  "exampleCoordinator =
     \<lparr>database = \<lparr>test_runs = [''r1'' \<mapsto> exampleRun], agent_results = Map.empty,
                   failing = False\<rparr>,
      connectedAgents =
        [''agent-1'' \<mapsto>
           \<lparr>AgentInfo.ID = ''agent-1'', Region = ''eu'', ConnectedAt = 0, LastSeen = 0,
            Concurrency = 5, ExecutionState = [], RampUpExecution = None\<rparr>],
      testRuns = [''r1'' \<mapsto> exampleRun],
      currentTestRun = Some ''r1'',
      agentResults = [''r1'' \<mapsto> [exampleResult]],
      phaseOrchestrator = False\<rparr>"

section \<open>Validation\<close>

lemmas RampUpType_defs =
  RampUpTypeImmediate_def RampUpTypeLinear_def RampUpTypeStep_def RampUpTypeCustom_def

lemma RampUpType_distinct:
  "RampUpTypeImmediate \<noteq> RampUpTypeLinear" "RampUpTypeImmediate \<noteq> RampUpTypeStep"
  "RampUpTypeImmediate \<noteq> RampUpTypeCustom" "RampUpTypeLinear \<noteq> RampUpTypeStep"
  "RampUpTypeLinear \<noteq> RampUpTypeCustom" "RampUpTypeStep \<noteq> RampUpTypeCustom"
  by (simp_all add: RampUpType_defs)

lemma validatePhases_accepts:
  "validatePhases pd i phases = None \<longleftrightarrow> \<not> list_ex (badPhase pd) phases"
  by (induction phases arbitrary: i) (auto simp: badPhase_def)

lemma validatePhases_rejects:
  "(\<exists>e. validatePhases pd i phases = Some e) \<longleftrightarrow> list_ex (badPhase pd) phases"
  using validatePhases_accepts [of pd i phases]
  by (cases "validatePhases pd i phases") auto

text \<open>
  C8 (as the code has it): validation returns an error exactly when the strategy duration
  does not parse, or the type is none of immediate, linear, step, custom, or the type is
  step or custom and the phase list is empty or holds a phase with an unparseable
  duration, a negative concurrency or a mode other than parallel and sequential. The
  phases of an immediate or linear strategy are not looked at.
\<close>

theorem ValidateRampUpStrategy_rejects_iff:
  "ValidateRampUpStrategy pd strat \<noteq> None \<longleftrightarrow>
     pd (RampUpStrategy.Duration strat) = None
     \<or> Type strat \<notin> {RampUpTypeImmediate, RampUpTypeLinear, RampUpTypeStep, RampUpTypeCustom}
     \<or> ((Type strat = RampUpTypeStep \<or> Type strat = RampUpTypeCustom)
          \<and> (Phases strat = [] \<or> list_ex (badPhase pd) (Phases strat)))"
proof (cases "pd (RampUpStrategy.Duration strat) = None")
  case True
  then show ?thesis by (simp add: ValidateRampUpStrategy_def)
next
  case parsed: False
  consider "Type strat = RampUpTypeImmediate" | "Type strat = RampUpTypeLinear"
    | "Type strat = RampUpTypeStep" | "Type strat = RampUpTypeCustom"
    | "Type strat \<notin> {RampUpTypeImmediate, RampUpTypeLinear, RampUpTypeStep, RampUpTypeCustom}"
    by auto
  then show ?thesis
    using parsed RampUpType_distinct
    by cases (auto simp: ValidateRampUpStrategy_def validatePhases_rejects)
qed

theorem ValidateRampUpStrategy_rejects_iff_witness:
  "ValidateRampUpStrategy parseSecondsLiteral
     \<lparr>Type = ''custom'', Duration = ''10s'',
      Phases = [\<lparr>RampPhase.Duration = ''5s'', Concurrency = - 1, Mode = ''parallel''\<rparr>]\<rparr> \<noteq> None
   \<and> ValidateRampUpStrategy parseSecondsLiteral
     \<lparr>Type = ''custom'', Duration = ''10s'',
      Phases = [\<lparr>RampPhase.Duration = ''5s'', Concurrency = 4, Mode = ''parallel''\<rparr>]\<rparr> = None"
  using ValidateRampUpStrategy_rejects_iff [of parseSecondsLiteral
      "\<lparr>Type = ''custom'', Duration = ''10s'',
        Phases = [\<lparr>RampPhase.Duration = ''5s'', Concurrency = - 1, Mode = ''parallel''\<rparr>]\<rparr>"]
    ValidateRampUpStrategy_rejects_iff [of parseSecondsLiteral
      "\<lparr>Type = ''custom'', Duration = ''10s'',
        Phases = [\<lparr>RampPhase.Duration = ''5s'', Concurrency = 4, Mode = ''parallel''\<rparr>]\<rparr>"]
  by (simp add: badPhase_def parseSecondsLiteral_def isDigit_def digitValue_def in64_def
      Second_def RampUpType_defs)

text \<open>
  C8 (as stated) fails: a linear strategy with a parseable duration whose only phase has
  an unparseable duration, a negative concurrency and an unknown mode is accepted,
  although the stated condition rejects it.
\<close>

theorem ValidateRampUpStrategy_linear_counterexample:
  "ValidateRampUpStrategy parseSecondsLiteral
     \<lparr>Type = ''linear'', Duration = ''10s'',
      Phases = [\<lparr>RampPhase.Duration = ''soon'', Concurrency = - 1, Mode = ''serial''\<rparr>]\<rparr> = None
   \<and> specRejects parseSecondsLiteral
     \<lparr>Type = ''linear'', Duration = ''10s'',
      Phases = [\<lparr>RampPhase.Duration = ''soon'', Concurrency = - 1, Mode = ''serial''\<rparr>]\<rparr>"
  by (simp add: ValidateRampUpStrategy_def specRejects_def parseSecondsLiteral_def
      isDigit_def digitValue_def in64_def Second_def RampUpType_defs)


section \<open>The step constructor\<close>

lemma wrap64_id: "in64 x \<Longrightarrow> wrap64 x = x"
  by (simp add: in64_def wrap64_def)

lemma goQuot_nonneg: "0 \<le> a \<Longrightarrow> 0 < b \<Longrightarrow> goQuot a b = a div b"
  by (simp add: goQuot_def)

lemma stepLoop_length: "length (stepLoop sd steps i phases) = length phases"
  by (induction sd steps i phases rule: stepLoop.induct) (subst stepLoop.simps, simp)

text \<open>
  The loop invariant: the slots from \<open>i\<close> on are written, the earlier ones kept. The
  products do not wrap when the last one, \<open>steps * 100\<close>, is below \<open>2 ^ 63\<close>.
\<close>

lemma stepLoop_nth:
  "0 \<le> i \<Longrightarrow> nat steps \<le> length phases \<Longrightarrow> k < nat steps \<Longrightarrow> steps * 100 < 2 ^ 63 \<Longrightarrow>
   stepLoop sd steps i phases ! k =
     (if nat i \<le> k
      then \<lparr>RampPhase.Duration = sd, Concurrency = (int k + 1) * 100 div steps,
             Mode = ''parallel''\<rparr>
      else phases ! k)"
proof (induction sd steps i phases rule: stepLoop.induct)
  case (1 sd steps i phases)
  show ?case
  proof (cases "i < steps")
    case True
    let ?written = "phases[nat i := \<lparr>RampPhase.Duration = sd,
        Concurrency = goQuot (wrap64 ((i + 1) * 100)) steps, Mode = ''parallel''\<rparr>]"
    have len: "nat steps \<le> length ?written"
      using "1.prems" by simp
    have "(i + 1) * 100 \<le> steps * 100" using True by simp
    then have "(i + 1) * 100 < 2 ^ 63" using "1.prems"(4) by (rule le_less_trans)
    moreover have "0 \<le> (i + 1) * 100" using "1.prems"(1) by simp
    ultimately have "in64 ((i + 1) * 100)" by (simp add: in64_def)
    then have w: "wrap64 ((i + 1) * 100) = (i + 1) * 100" by (rule wrap64_id)
    have "goQuot ((i + 1) * 100) steps = (i + 1) * 100 div steps"
      using True "1.prems"(1) by (intro goQuot_nonneg) auto
    then have q: "goQuot (wrap64 ((i + 1) * 100)) steps = (i + 1) * 100 div steps"
      by (simp only: w)
    have ik: "nat i < length phases" using True "1.prems" by linarith
    have step: "stepLoop sd steps i phases ! k = stepLoop sd steps (i + 1) ?written ! k"
      using True by (subst stepLoop.simps) simp
    have ih: "stepLoop sd steps (i + 1) ?written ! k =
        (if nat (i + 1) \<le> k
         then \<lparr>RampPhase.Duration = sd, Concurrency = (int k + 1) * 100 div steps,
                Mode = ''parallel''\<rparr>
         else ?written ! k)"
      using "1.IH" [OF True _ len "1.prems"(3,4)] "1.prems"(1) by simp
    consider "k < nat i" | "k = nat i" | "nat i < k" by linarith
    then show ?thesis
    proof cases
      case 1
      then show ?thesis using step ih ik by simp
    next
      case 2
      then have "int k = i" using "1.prems"(1) by simp
      then show ?thesis using step ih ik 2 q "1.prems"(1) by simp
    next
      case 3
      then have "nat (i + 1) \<le> k" using "1.prems"(1) by linarith
      then show ?thesis using step ih 3 by simp
    qed
  next
    case False
    then show ?thesis using "1.prems" by (subst stepLoop.simps) auto
  qed
qed

text \<open>
  C1 (as the code has it): let \<open>N = stepCount steps\<close> (3 when \<open>steps\<close> is not positive).
  When the runtime can make a slice of \<open>N\<close> phases and \<open>N * 100\<close> is below \<open>2 ^ 63\<close>,
  \<^verbatim>\<open>CreateStepRampUp\<close> returns a strategy of exactly \<open>N\<close> phases; every phase is in
  mode parallel and carries the same duration string, the \<^verbatim>\<open>"%.0fs"\<close> rendering of the
  seconds of the parsed duration (60 s when it does not parse) divided by \<open>N\<close> in
  floating point, that is a whole number of seconds; and phase \<open>k\<close> (counted from 1) has
  concurrency \<open>k * 100 div N\<close>, a percentage rounded down that does not depend on a
  maximum concurrency.
\<close>

theorem CreateStepRampUp_phases:
  assumes "canMakePhases rt (stepCount steps)" and "stepCount steps * 100 < 2 ^ 63"
  shows "\<exists>s. CreateStepRampUp rt pd d steps = Inr s
     \<and> length (Phases s) = nat (stepCount steps)
     \<and> (\<forall>k. 1 \<le> k \<and> k \<le> stepCount steps \<longrightarrow>
          Phases s ! nat (k - 1) =
            \<lparr>RampPhase.Duration = stepDurationLabel pd d (stepCount steps),
             Concurrency = k * 100 div stepCount steps, Mode = ''parallel''\<rparr>)"
proof -
  define s where "s = \<lparr>Type = RampUpTypeStep, Duration = d,
    Phases = stepLoop (stepDurationLabel pd d (stepCount steps)) (stepCount steps) 0
               (replicate (nat (stepCount steps)) zeroPhase)\<rparr>"
  have pos: "0 < stepCount steps" by (simp add: stepCount_def)
  have made: "CreateStepRampUp rt pd d steps = Inr s"
    using assms(1) pos by (simp add: CreateStepRampUp_def Let_def s_def)
  have len: "length (Phases s) = nat (stepCount steps)"
    by (simp add: s_def stepLoop_length)
  have "Phases s ! nat (k - 1) =
            \<lparr>RampPhase.Duration = stepDurationLabel pd d (stepCount steps),
             Concurrency = k * 100 div stepCount steps, Mode = ''parallel''\<rparr>"
    if "1 \<le> k" "k \<le> stepCount steps" for k
  proof -
    have "nat (k - 1) < nat (stepCount steps)" using that by linarith
    then show ?thesis
      using that assms(2) by (simp add: s_def stepLoop_nth)
  qed
  then show ?thesis using made len by blast
qed

theorem CreateStepRampUp_phases_witness:
  "(case CreateStepRampUp exampleRuntime parseSecondsLiteral ''10s'' 0 of
      Inl p \<Rightarrow> False
    | Inr s \<Rightarrow> length (Phases s) = 3
        \<and> Phases s ! 1 = \<lparr>RampPhase.Duration = ''3s'', Concurrency = 66, Mode = ''parallel''\<rparr>)"
proof -
  have label: "stepDurationLabel parseSecondsLiteral ''10s'' 3 = ''3s''"
    by code_simp
  have count: "stepCount 0 = 3"
    by (simp add: stepCount_def)
  have room: "canMakePhases exampleRuntime (stepCount 0)"
    by (simp add: exampleRuntime_def count)
  have small: "stepCount 0 * 100 < 2 ^ 63"
    by (simp add: count)
  obtain s where s: "CreateStepRampUp exampleRuntime parseSecondsLiteral ''10s'' 0 = Inr s"
    "length (Phases s) = nat (stepCount 0)"
    "\<forall>k. 1 \<le> k \<and> k \<le> stepCount 0 \<longrightarrow>
       Phases s ! nat (k - 1) =
         \<lparr>RampPhase.Duration = stepDurationLabel parseSecondsLiteral ''10s'' (stepCount 0),
          Concurrency = k * 100 div stepCount 0, Mode = ''parallel''\<rparr>"
    using CreateStepRampUp_phases [OF room small, of parseSecondsLiteral "''10s''"] by blast
  have "Phases s ! 1 = \<lparr>RampPhase.Duration = ''3s'', Concurrency = 66, Mode = ''parallel''\<rparr>"
    using s(3) label count by (auto dest: spec [of _ 2])
  then show ?thesis using s(1,2) count by simp
qed

text \<open>
  C1 (as stated) fails: for a ramp of 30 s in 3 steps and a maximum concurrency of 100,
  the second phase has concurrency 66, where \<open>2 * 100 / 3\<close> rounded is 67.
\<close>

theorem CreateStepRampUp_round_counterexample:
  "(case CreateStepRampUp exampleRuntime parseSecondsLiteral ''30s'' 3 of
      Inl p \<Rightarrow> False
    | Inr s \<Rightarrow> RampPhase.Concurrency (Phases s ! 1) = 66)
   \<and> specStepConcurrency 100 3 2 = 67"
  by code_simp

text \<open>
  Where the runtime cannot make the slice, the constructor panics: the bound on the
  step count is needed.
\<close>

lemma CreateStepRampUp_panics:
  "\<not> canMakePhases rt (stepCount steps) \<Longrightarrow>
   CreateStepRampUp rt pd d steps = Inl MakeSliceLenOutOfRange"
  by (simp add: CreateStepRampUp_def Let_def)

section \<open>Phase-based targets\<close>

lemma find_over_map: "find P (map f xs) = map_option f (find (P \<circ> f) xs)"
  by (induction xs) auto

lemma find_upt_Suc:
  "find P [0..<Suc n] = (if P 0 then Some 0 else map_option Suc (find (P \<circ> Suc) [0..<n]))"
proof -
  have "[0..<Suc n] = 0 # map Suc [0..<n]"
    by (simp add: upt_conv_Cons map_Suc_upt del: upt_Suc)
  then show ?thesis by (simp add: find_over_map del: upt_Suc)
qed

text \<open>
  The walk from any running sum: when the phases parse and the sums stay in range, it
  returns the concurrency of the first phase that ends at or after \<open>elapsed\<close>.
\<close>

lemma phaseWalk_find:
  assumes "list_all (\<lambda>phase. pd (RampPhase.Duration phase) \<noteq> None) ps"
    and "\<forall>k<length ps. in64 (cum + phaseEnd pd ps k)"
  shows "fst (phaseWalk pd elapsed maxC i cum ps ex) =
     (case find (\<lambda>k. elapsed \<le> cum + phaseEnd pd ps k) [0..<length ps] of
        Some k \<Rightarrow> RampPhase.Concurrency (ps ! k)
      | None \<Rightarrow> maxC)"
  using assms
proof (induction ps arbitrary: i cum ex)
  case Nil
  then show ?case by simp
next
  case (Cons p ps)
  from Cons.prems(1) obtain d where d: "pd (RampPhase.Duration p) = Some d" by auto
  have e0: "phaseEnd pd (p # ps) 0 = d"
    by (simp add: phaseEnd_def phaseDurations_def d)
  have eS: "phaseEnd pd (p # ps) (Suc k) = d + phaseEnd pd ps k" for k
    by (simp add: phaseEnd_def phaseDurations_def d)
  have r0: "in64 (cum + d)" using Cons.prems(2) e0 by force
  have rS: "\<forall>k<length ps. in64 ((cum + d) + phaseEnd pd ps k)"
  proof (intro allI impI)
    fix k assume "k < length ps"
    then have "in64 (cum + phaseEnd pd (p # ps) (Suc k))" using Cons.prems(2) by simp
    then show "in64 ((cum + d) + phaseEnd pd ps k)" by (simp add: eS add.assoc)
  qed
  have all: "list_all (\<lambda>phase. pd (RampPhase.Duration phase) \<noteq> None) ps"
    using Cons.prems(1) by simp
  have ih: "fst (phaseWalk pd elapsed maxC (i + 1) (cum + d) ps ex) =
     (case find (\<lambda>k. elapsed \<le> (cum + d) + phaseEnd pd ps k) [0..<length ps] of
        Some k \<Rightarrow> RampPhase.Concurrency (ps ! k)
      | None \<Rightarrow> maxC)"
    by (rule Cons.IH [OF all rS])
  have comp: "(\<lambda>k. elapsed \<le> cum + phaseEnd pd (p # ps) k) \<circ> Suc =
      (\<lambda>k. elapsed \<le> (cum + d) + phaseEnd pd ps k)"
    by (auto simp: eS add.assoc)
  show ?case
  proof (cases "elapsed \<le> cum + d")
    case True
    then show ?thesis
      using d r0 by (simp add: wrap64_id find_upt_Suc e0 del: upt_Suc)
  next
    case False
    then show ?thesis
      using d r0 ih
      by (simp add: wrap64_id find_upt_Suc e0 comp del: upt_Suc split: option.splits)
  qed
qed

text \<open>
  C3: for a step or custom strategy with a non-empty phase list whose phase durations
  parse (and whose sums are 64-bit values), the target at every elapsed time is the
  concurrency of the first phase with \<open>elapsed \<le> phaseEnd\<close>, and the maximum
  concurrency past all phases; and \<^verbatim>\<open>IsComplete\<close> holds exactly when the elapsed time
  has reached the strategy duration.
\<close>

theorem GetCurrentConcurrency_phase_based:
  assumes "NewRampUpCalculator pd strat maxC = Inr calc"
    and "Type strat = RampUpTypeStep \<or> Type strat = RampUpTypeCustom"
    and "Phases strat \<noteq> []"
    and "phasesInRange pd (Phases strat)"
  shows "fst (GetCurrentConcurrency pd calc ex (StartTime ex + elapsed)) =
           specPhaseTarget pd (Phases strat) maxC elapsed
         \<and> (IsComplete calc ex (StartTime ex + elapsed) \<longleftrightarrow>
              (\<exists>d. pd (RampUpStrategy.Duration strat) = Some d \<and> d \<le> elapsed))"
proof -
  from assms(1) obtain d where d: "pd (RampUpStrategy.Duration strat) = Some d"
    and calc: "calc = \<lparr>strategy = strat, maxConcurrency = maxC, startTime = 0, duration = d\<rparr>"
    by (auto simp: NewRampUpCalculator_def split: option.splits)
  have parsed: "list_all (\<lambda>phase. pd (RampPhase.Duration phase) \<noteq> None) (Phases strat)"
    and ranged: "\<forall>k<length (Phases strat). in64 (0 + phaseEnd pd (Phases strat) k)"
    using assms(4) by (auto simp: phasesInRange_def list_all_iff)
  have walk: "fst (phaseWalk pd elapsed maxC 0 0 (Phases strat) ex) =
      specPhaseTarget pd (Phases strat) maxC elapsed"
    using phaseWalk_find [OF parsed ranged, of elapsed maxC 0 ex]
    by (simp add: specPhaseTarget_def)
  have "fst (GetCurrentConcurrency pd calc ex (StartTime ex + elapsed)) =
      specPhaseTarget pd (Phases strat) maxC elapsed"
    using assms(2,3) walk RampUpType_distinct
    by (auto simp: GetCurrentConcurrency_def getPhaseBasedConcurrency_def Since_def calc)
  moreover have "IsComplete calc ex (StartTime ex + elapsed) \<longleftrightarrow>
      (\<exists>d. pd (RampUpStrategy.Duration strat) = Some d \<and> d \<le> elapsed)"
    by (simp add: IsComplete_def Since_def calc d)
  ultimately show ?thesis by simp
qed


theorem GetCurrentConcurrency_phase_based_witness:
  "NewRampUpCalculator parseSecondsLiteral twoPhaseStrategy 50 = Inr twoPhaseCalculator
   \<and> phasesInRange parseSecondsLiteral (Phases twoPhaseStrategy)
   \<and> fst (GetCurrentConcurrency parseSecondsLiteral twoPhaseCalculator twoPhaseExecution
          (StartTime twoPhaseExecution + 7000000000)) = 20
   \<and> \<not> IsComplete twoPhaseCalculator twoPhaseExecution
          (StartTime twoPhaseExecution + 7000000000)"
proof -
  have new: "NewRampUpCalculator parseSecondsLiteral twoPhaseStrategy 50 = Inr twoPhaseCalculator"
    by code_simp
  have kind: "Type twoPhaseStrategy = RampUpTypeStep \<or> Type twoPhaseStrategy = RampUpTypeCustom"
    by (simp add: twoPhaseStrategy_def RampUpType_defs)
  have some: "Phases twoPhaseStrategy \<noteq> []"
    by (simp add: twoPhaseStrategy_def)
  have range: "phasesInRange parseSecondsLiteral (Phases twoPhaseStrategy)"
    by code_simp
  have target: "specPhaseTarget parseSecondsLiteral (Phases twoPhaseStrategy) 50 7000000000 = 20"
    by code_simp
  have total: "parseSecondsLiteral (RampUpStrategy.Duration twoPhaseStrategy) = Some 10000000000"
    by code_simp
  show ?thesis
    using GetCurrentConcurrency_phase_based [OF new kind some range,
        of twoPhaseExecution 7000000000] new range target total
    by simp
qed


section \<open>Sequential phases\<close>

lemma upt_Suc_shift: "[0..<Suc n] = 0 # map Suc [0..<n]"
  by (simp add: upt_conv_Cons map_Suc_upt del: upt_Suc)

lemma sequentialLoop_outbox:
  assumes "stopAt po = None" and "0 \<le> per"
  shows "outbox (sequentialLoop ds po idx phase pid per i ids sched) =
     outbox sched @
       map (\<lambda>k. sendAt ds po idx phase pid per
                  (clock sched + (int k + (if 0 < i then 1 else 0)) * per) (ids ! k))
           [0..<length ids]"
proof (induction ids arbitrary: i sched)
  case Nil
  then show ?case by simp
next
  case (Cons a rest)
  let ?c = "if 0 < i then 1 else 0 :: int"
  let ?s1 = "if 0 < i then Sleep per sched else sched"
  let ?s2 = "sendPhaseCommand po a ''START_PHASE''
                (sequentialPhaseInfo ds idx phase pid per a) ?s1"
  have clock1: "clock ?s2 = clock sched + ?c * per"
    using assms(2) by (simp add: Sleep_def sendPhaseCommand_def)
  have out1: "outbox ?s2 = outbox sched @ [sendAt ds po idx phase pid per (clock sched + ?c * per) a]"
    using assms(2) by (simp add: Sleep_def sendPhaseCommand_def sendAt_def)
  have "outbox (sequentialLoop ds po idx phase pid per i (a # rest) sched) =
      outbox (sequentialLoop ds po idx phase pid per (i + 1) rest ?s2)"
    using assms(1) by (simp add: stopped_def)
  also have "\<dots> = outbox ?s2 @
       map (\<lambda>k. sendAt ds po idx phase pid per (clock ?s2 + (int k + 1) * per) (rest ! k))
           [0..<length rest]"
    using Cons.IH [of "i + 1" ?s2] by simp
  also have "\<dots> = outbox sched @
       map (\<lambda>k. sendAt ds po idx phase pid per (clock sched + (int k + ?c) * per) ((a # rest) ! k))
           [0..<length (a # rest)]"
    unfolding out1 clock1
    by (simp add: upt_Suc_shift algebra_simps del: upt_Suc)
  finally show ?case .
qed


lemma sort_distinct_eq: "distinct xs \<Longrightarrow> sort xs = sorted_list_of_set (set xs)"
  by (simp add: sorted_list_of_set_sort_remdups distinct_remdups_id)

text \<open>
  C7: for a sequential phase whose duration parses to \<open>D \<ge> 0\<close>, run to its end (no
  stop) over a non-empty set of \<open>n\<close> active agents, the commands published are exactly
  the START_PHASE commands of the specification's schedule: the agent ids in sorted
  order, which depends on the set of ids only and not on the order the map yields them;
  \<open>perAgent = D div n\<close>; the \<open>k\<close>-th agent (from 0) addressed at \<open>k * perAgent\<close> after
  phase entry; each command carrying the duration \<open>perAgent\<close> (as \<^verbatim>\<open>String\<close> renders
  it).
\<close>

theorem executeSequentialPhase_schedule:
  assumes "pd (RampPhase.Duration phase) = Some D" and "0 \<le> D"
    and "activeAgents po \<noteq> []" and "distinct (activeAgents po)" and "stopAt po = None"
  shows "outbox (executeSequentialPhase pd ds po idx phase pid \<lparr>clock = t0, outbox = []\<rparr>) =
     specSequentialSends ds po idx phase pid t0 (D div int (length (activeAgents po)))
       (sorted_list_of_set (set (activeAgents po)))"
proof -
  let ?ids = "sort (activeAgents po)"
  let ?per = "D div int (length (activeAgents po))"
  have n: "0 < int (length (activeAgents po))" using assms(3) by simp
  have per: "goQuot D (int (length ?ids)) = ?per"
    using assms(2) n by (simp add: goQuot_nonneg)
  have nonneg: "0 \<le> ?per"
    using assms(2) n by (simp add: pos_imp_zdiv_nonneg_iff)
  have ids: "?ids = sorted_list_of_set (set (activeAgents po))"
    using assms(4) by (rule sort_distinct_eq)
  have "outbox (executeSequentialPhase pd ds po idx phase pid \<lparr>clock = t0, outbox = []\<rparr>) =
      outbox (sequentialLoop ds po idx phase pid ?per 0 ?ids \<lparr>clock = t0, outbox = []\<rparr>)"
    using assms(1,3) per by (simp add: executeSequentialPhase_def Let_def)
  also have "\<dots> = specSequentialSends ds po idx phase pid t0 ?per ?ids"
    using sequentialLoop_outbox [OF assms(5) nonneg, of ds idx phase pid 0 ?ids
        "\<lparr>clock = t0, outbox = []\<rparr>"]
    by (simp add: specSequentialSends_def)
  finally show ?thesis using ids by simp
qed

theorem executeSequentialPhase_schedule_witness:
  "map fst (outbox (executeSequentialPhase parseSecondsLiteral wholeSecondsString s4Orchestrator
       0 s4Phase ''run-phase-0'' \<lparr>clock = 0, outbox = []\<rparr>)) = [0, 3000000000, 6000000000]
   \<and> map (subject \<circ> snd) (outbox (executeSequentialPhase parseSecondsLiteral wholeSecondsString
       s4Orchestrator 0 s4Phase ''run-phase-0'' \<lparr>clock = 0, outbox = []\<rparr>)) =
       [''armonite.agent.a.command'', ''armonite.agent.b.command'', ''armonite.agent.c.command'']
   \<and> list_all (\<lambda>sent. case body (snd sent) of
          CommandPayload cmd \<Rightarrow> map_option PhaseInfo.Duration (CurrentPhase cmd) = Some ''3s''
        | _ \<Rightarrow> False)
       (outbox (executeSequentialPhase parseSecondsLiteral wholeSecondsString s4Orchestrator
          0 s4Phase ''run-phase-0'' \<lparr>clock = 0, outbox = []\<rparr>))"
proof -
  have parsed: "parseSecondsLiteral (RampPhase.Duration s4Phase) = Some 9000000000"
    by code_simp
  have agents: "activeAgents s4Orchestrator \<noteq> []" "distinct (activeAgents s4Orchestrator)"
    "stopAt s4Orchestrator = None"
    by (simp_all add: s4Orchestrator_def)
  have sorted: "sorted_list_of_set (set (activeAgents s4Orchestrator)) = [''a'', ''b'', ''c'']"
    by code_simp
  have per: "9000000000 div int (length (activeAgents s4Orchestrator)) = 3000000000"
    by (simp add: s4Orchestrator_def)
  have label: "wholeSecondsString 3000000000 = ''3s''"
    by code_simp
  have "outbox (executeSequentialPhase parseSecondsLiteral wholeSecondsString s4Orchestrator
       0 s4Phase ''run-phase-0'' \<lparr>clock = 0, outbox = []\<rparr>) =
     specSequentialSends wholeSecondsString s4Orchestrator 0 s4Phase ''run-phase-0'' 0 3000000000
       [''a'', ''b'', ''c'']"
    using executeSequentialPhase_schedule [of parseSecondsLiteral s4Phase 9000000000
        s4Orchestrator wholeSecondsString 0 "''run-phase-0''" 0] parsed agents sorted per
    by simp
  then show ?thesis
    by (simp add: specSequentialSends_def sendAt_def agentCommandSubject_def
        sequentialPhaseInfo_def label
        upt_rec [of 0] upt_rec [of 1] upt_rec [of 2])
qed


section \<open>Phase workers\<close>

lemma spawnWorkers_length:
  "int (length (spawnWorkers i n started)) = int (length started) + max 0 (n - i)"
  by (induction i n started rule: spawnWorkers.induct) (subst spawnWorkers.simps, simp)

text \<open>
  C10: a START_PHASE command carrying phase concurrency \<open>P\<close>, handled by an agent of
  declared concurrency \<open>C\<close> (both counts, so not negative), runs the phase with exactly
  \<open>min P C\<close> workers, which is never more than \<open>C\<close>, provided the runtime can make
  the request queue of capacity \<open>10 * min P C\<close> (a 64-bit value) and can start that
  many workers.
\<close>

theorem handleAgentCommand_phase_workers:
  assumes "Command command = ''START_PHASE''" and "CurrentPhase command = Some phase"
    and "0 \<le> PhaseInfo.Concurrency phase" and "0 \<le> concurrency a"
    and "min (PhaseInfo.Concurrency phase) (concurrency a) * 10 < 2 ^ 63"
    and "canMakeQueue rt (min (PhaseInfo.Concurrency phase) (concurrency a) * 10)"
    and "canStartWorkers rt (min (PhaseInfo.Concurrency phase) (concurrency a))"
  shows "\<exists>a' run. handleAgentCommand rt pd ds a command stamp = Inr (a', Some run)
           \<and> int (length (workers run)) = min (PhaseInfo.Concurrency phase) (concurrency a)
           \<and> int (length (workers run)) \<le> concurrency a"
proof -
  define m where "m = min (PhaseInfo.Concurrency phase) (concurrency a)"
  define a1 where "a1 = a\<lparr>currentPhase := Some phase, phaseStopCh := True\<rparr>"
  define d where "d = (case pd (PhaseInfo.Duration phase) of
                         None \<Rightarrow> 30 * Second | Some parsed \<Rightarrow> parsed)"
  have m0: "0 \<le> m" using assms(3,4) by (simp add: m_def)
  have "(0::int) < 2 ^ 63" by simp
  with m0 have "- (2 ^ 63) \<le> m * 10" by linarith
  then have "in64 (m * 10)" using assms(5) unfolding in64_def m_def by blast
  then have w: "wrap64 (m * 10) = m * 10" by (rule wrap64_id)
  have cap: "(if concurrency a1 < PhaseInfo.Concurrency phase then concurrency a1
              else PhaseInfo.Concurrency phase) = m"
    by (simp add: a1_def m_def min_def)
  have load: "executePhaseLoad rt ds a1 m d phase stamp =
      Inr \<lparr>workers = spawnWorkers 0 m [], queueCapacity = m * 10, timer = d,
           sent = [sendExecutionUpdate a1 stamp ''running''
             (''Phase '' @ Sprintd (PhaseInfo.PhaseIndex phase) @ '': '' @ PhaseInfo.Mode phase
              @ '' mode, '' @ Sprintd m @ '' workers, '' @ ds d @ '' duration'')]\<rparr>"
    using m0 assms(6,7) by (simp add: executePhaseLoad_def Let_def w m_def [symmetric])
  have count: "int (length (spawnWorkers 0 m [])) = m"
    using m0 by (simp add: spawnWorkers_length)
  have "\<exists>run. handleAgentCommand rt pd ds a command stamp = Inr (a1, Some run)
           \<and> int (length (workers run)) = m"
    using assms(1,2) count
    by (simp add: handleAgentCommand_def executePhase_def Let_def a1_def [symmetric]
        d_def [symmetric] cap load)
  moreover have "m \<le> concurrency a" by (simp add: m_def)
  ultimately show ?thesis unfolding m_def by auto
qed

theorem handleAgentCommand_phase_workers_witness:
  "(case handleAgentCommand exampleRuntime parseSecondsLiteral wholeSecondsString exampleAgent
           examplePhaseCommand ''2026-01-01T00:00:00Z'' of
      Inr (a', Some run) \<Rightarrow> workers run = [0, 1, 2, 3, 4]
    | _ \<Rightarrow> False)"
proof -
  have pre: "Command examplePhaseCommand = ''START_PHASE''"
    "CurrentPhase examplePhaseCommand = Some examplePhaseInfo"
    "0 \<le> PhaseInfo.Concurrency examplePhaseInfo" "0 \<le> concurrency exampleAgent"
    "min (PhaseInfo.Concurrency examplePhaseInfo) (concurrency exampleAgent) * 10 < 2 ^ 63"
    "canMakeQueue exampleRuntime
       (min (PhaseInfo.Concurrency examplePhaseInfo) (concurrency exampleAgent) * 10)"
    "canStartWorkers exampleRuntime
       (min (PhaseInfo.Concurrency examplePhaseInfo) (concurrency exampleAgent))"
    by (simp_all add: examplePhaseCommand_def examplePhaseInfo_def exampleAgent_def
        exampleRuntime_def)
  obtain a' run where run:
    "handleAgentCommand exampleRuntime parseSecondsLiteral wholeSecondsString exampleAgent
       examplePhaseCommand ''2026-01-01T00:00:00Z'' = Inr (a', Some run)"
    "int (length (workers run)) =
       min (PhaseInfo.Concurrency examplePhaseInfo) (concurrency exampleAgent)"
    using handleAgentCommand_phase_workers [OF pre] by blast
  have "workers run = [0, 1, 2, 3, 4]"
    using run(1)
    by (simp add: handleAgentCommand_def executePhase_def executePhaseLoad_def Let_def
        examplePhaseCommand_def examplePhaseInfo_def exampleAgent_def wrap64_def
        exampleRuntime_def spawnWorkers.simps)
       auto
  then show ?thesis using run(1) by simp
qed

text \<open>
  Where the runtime cannot make the request queue, the command panics and no worker
  is started; where it cannot start the workers, the agent stops.
\<close>

lemma handleAgentCommand_queue_panics:
  assumes "Command command = ''START_PHASE''" and "CurrentPhase command = Some phase"
    and "\<not> canMakeQueue rt (wrap64 (min (PhaseInfo.Concurrency phase) (concurrency a) * 10))"
  shows "handleAgentCommand rt pd ds a command stamp = Inl MakeChanSizeOutOfRange"
  using assms
  by (auto simp: handleAgentCommand_def executePhase_def executePhaseLoad_def Let_def min_def
      split: if_splits)

section \<open>Execution status updates\<close>

lemma status_subject_not_subscribed:
  "subject (sendExecutionUpdate a stamp st msg) \<notin> set (coordinatorSubjects runID)"
  by (simp add: sendExecutionUpdate_def coordinatorSubjects_def executionUpdateSubject_def)

lemma status_update_not_delivered:
  "onExecutionSubscription c (sendExecutionUpdate a stamp st msg) = c"
  by (simp add: onExecutionSubscription_def sendExecutionUpdate_def executionUpdateSubject_def)

text \<open>
  C9 fails on the code: the agent publishes its status updates on \<open>armonite.agent.status\<close>,
  which is none of the subjects the coordinator subscribes to; the handler of execution
  updates listens on \<open>armonite.agent.execution\<close>. The update "running" of a registered
  agent leaves its execution state empty; the same payload on the subscribed subject
  would set it.
\<close>

theorem sendExecutionUpdate_lost:
  "subject (sendExecutionUpdate exampleAgent ''2026-01-01T00:00:00Z'' ''running'' ''Load test running'')
     = ''armonite.agent.status''
   \<and> ''armonite.agent.status'' \<notin> set (coordinatorSubjects ''r1'')
   \<and> map_option ExecutionState
        (connectedAgents
           (onExecutionSubscription exampleCoordinator
              (sendExecutionUpdate exampleAgent ''2026-01-01T00:00:00Z'' ''running''
                 ''Load test running''))
           ''agent-1'') = Some []
   \<and> map_option ExecutionState
        (connectedAgents
           (onExecutionSubscription exampleCoordinator
              ((sendExecutionUpdate exampleAgent ''2026-01-01T00:00:00Z'' ''running''
                 ''Load test running'')\<lparr>subject := executionUpdateSubject\<rparr>))
           ''agent-1'') = Some ''running''"
  by (simp add: sendExecutionUpdate_def coordinatorSubjects_def executionUpdateSubject_def
      onExecutionSubscription_def handleAgentExecutionUpdate_def exampleCoordinator_def
      exampleAgent_def)

section \<open>Metric counters\<close>

lemma addCount_sum: "sum_list (map snd (addCount key n codes)) = sum_list (map snd codes) + n"
  by (induction codes) auto

lemma recorded_snoc: "recorded m (rs @ [r]) = record_one (recorded m rs) r"
  by (simp add: recorded_def)

lemma recordRequest_counts:
  "AgentMetrics.Requests (recordRequest m code latency) = AgentMetrics.Requests m + 1"
  "AgentMetrics.Errors (recordRequest m code latency) = AgentMetrics.Errors m"
  "sum_list (map snd (AgentMetrics.StatusCodes (recordRequest m code latency))) =
     sum_list (map snd (AgentMetrics.StatusCodes m)) + 1"
  by (simp_all add: recordRequest_def Let_def addCount_sum)

lemma recorded_status_sum:
  "sum_list (map snd (AgentMetrics.StatusCodes (recorded m rs))) = AgentMetrics.Requests (recorded m rs)"
proof (induction rs rule: rev_induct)
  case Nil
  then show ?case by (simp add: recorded_def resetMetrics_def)
next
  case (snoc r rs)
  then show ?case
    by (cases r) (simp_all add: recorded_snoc recordRequest_counts recordError_def)
qed

lemma recorded_counts:
  "AgentMetrics.Requests (recorded m rs) = int (length (filter (\<lambda>r. r \<noteq> RecordError) rs))
   \<and> AgentMetrics.Errors (recorded m rs) = int (length (filter (\<lambda>r. r = RecordError) rs))"
proof (induction rs rule: rev_induct)
  case Nil
  then show ?case by (simp add: recorded_def resetMetrics_def)
next
  case (snoc r rs)
  then show ?case
    by (cases r) (simp_all add: recorded_snoc recordRequest_counts recordError_def)
qed

text \<open>
  C4 fails on the code: \<^verbatim>\<open>recordError\<close> counts an error without counting a request.
  After one answered request and two failed ones the counters are 1 request and 2
  errors, and the snapshot is published. (The other half of the claim holds: the status
  code counts always sum to the request counter, see \<open>recorded_status_sum\<close>.)
\<close>

theorem recordError_exceeds_requests:
  "AgentMetrics.Requests
     (recorded (freshMetrics ''agent-1'') [RecordRequest 200 5000000, RecordError, RecordError]) = 1
   \<and> AgentMetrics.Errors
     (recorded (freshMetrics ''agent-1'') [RecordRequest 200 5000000, RecordError, RecordError]) = 2
   \<and> reportMetrics
     (recorded (freshMetrics ''agent-1'') [RecordRequest 200 5000000, RecordError, RecordError])
     ''2026-01-01T00:00:00Z'' \<noteq> None"
  by (simp add: recorded_def reportMetrics_def recordRequest_counts recordError_def
      resetMetrics_def)

section \<open>Deleting an active run\<close>

text \<open>
  C5 (as the code has it): deleting a run whose status is running or waiting_for_agents
  answers 400 with the body \<open>{error: "Cannot delete active test run", status: <status>}\<close>
  and leaves the coordinator, its runs, results and database, as they were.
\<close>

theorem handleDeleteTestRun_active:
  assumes "testRuns c runID = Some testRun"
    and "TestRun.Status testRun = TestRunStatusRunning
         \<or> TestRun.Status testRun = TestRunStatusWaiting"
  shows "handleDeleteTestRun c runID =
     (c, \<lparr>statusCode = 400,
          json = [(''error'', ''Cannot delete active test run''),
                  (''status'', TestRun.Status testRun)]\<rparr>)"
  using assms by (auto simp: handleDeleteTestRun_def StatusBadRequest_def)

theorem handleDeleteTestRun_active_witness:
  "handleDeleteTestRun exampleCoordinator ''r1'' =
     (exampleCoordinator,
      \<lparr>statusCode = 400,
       json = [(''error'', ''Cannot delete active test run''), (''status'', ''running'')]\<rparr>)"
proof -
  have found: "testRuns exampleCoordinator ''r1'' = Some exampleRun"
    by (simp add: exampleCoordinator_def)
  have active: "TestRun.Status exampleRun = TestRunStatusRunning
      \<or> TestRun.Status exampleRun = TestRunStatusWaiting"
    by (simp add: exampleRun_def TestRunStatusRunning_def)
  show ?thesis
    using handleDeleteTestRun_active [OF found active] by (simp add: exampleRun_def)
qed

text \<open>C5 (as stated) fails: the answer for a running run is 400, not 409.\<close>

theorem handleDeleteTestRun_status_counterexample:
  "statusCode (snd (handleDeleteTestRun exampleCoordinator ''r1'')) = 400
   \<and> statusCode (snd (handleDeleteTestRun exampleCoordinator ''r1'')) \<noteq> StatusConflict"
  by (simp add: handleDeleteTestRun_def exampleCoordinator_def exampleRun_def
      TestRunStatusRunning_def StatusBadRequest_def StatusConflict_def)

section \<open>Run completion\<close>

text \<open>
  The totals are the sums over the per-agent results, and the success rate is the
  double \<open>(total - errors) / total * 100\<close>, or 100 when there is no request.
\<close>

lemma aggregate_totals:
  "totalRequests (aggregate t results) =
     totalRequests t + sum_list (map AgentResult.Requests results)
   \<and> totalErrors (aggregate t results) =
     totalErrors t + sum_list (map AgentResult.Errors results)"
  by (induction results arbitrary: t) simp_all

lemma computeResults_totals:
  "TotalRequests (computeResults testRun results) = sum_list (map AgentResult.Requests results)"
  "TotalErrors (computeResults testRun results) = sum_list (map AgentResult.Errors results)"
  by (simp_all add: computeResults_def Let_def aggregate_totals initialTotals_def)

lemma computeResults_success_rate:
  "SuccessRate (computeResults testRun results) =
     (if 0 < sum_list (map AgentResult.Requests results)
      then f64_mul (f64_div (f64_of_int (sum_list (map AgentResult.Requests results)
                                         - sum_list (map AgentResult.Errors results)))
                            (f64_of_int (sum_list (map AgentResult.Requests results))))
                   (f64_of_int 100)
      else f64_of_int 100)"
  by (simp add: computeResults_def Let_def aggregate_totals initialTotals_def)

lemma computeResults_example:
  "f64_val (SuccessRate (computeResults exampleRun [exampleResult])) = 90"
  "f64_val (TestRunResults.MinLatencyMs (computeResults exampleRun [exampleResult])) = 5"
  "f64_val (TestRunResults.MaxLatencyMs (computeResults exampleRun [exampleResult])) = 40"
  "f64_val (TestRunResults.AvgLatencyMs (computeResults exampleRun [exampleResult])) = 20"
  by code_simp+

text \<open>The rate is 0 for every run that has no completion instant yet.\<close>

lemma computeResults_before_completion:
  "TestRun.CompletedAt testRun = None \<Longrightarrow>
   RequestsPerSec (computeResults testRun results) = f64_zero"
  by (simp add: computeResults_def Let_def split: option.splits)

text \<open>
  C6 fails on the code: the rate is computed from the run before \<^verbatim>\<open>Complete\<close> sets
  \<open>CompletedAt\<close>, so for a run completed for the first time it stays 0. A run started at
  0 and completed at 2 s with 10 requests gets \<open>requests_per_sec = 0\<close>, where the
  formula gives 5.
\<close>

theorem completeTestRun_rate_zero:
  "(case testRuns (completeTestRun wholeSecondsString exampleCoordinator ''r1'' 2000000000) ''r1'' of
      None \<Rightarrow> False
    | Some run \<Rightarrow>
        TestRun.StartedAt run = Some 0 \<and> TestRun.CompletedAt run = Some 2000000000
        \<and> (case TestRun.Results run of
              None \<Rightarrow> False
            | Some res \<Rightarrow> TotalRequests res = 10 \<and> f64_val (RequestsPerSec res) = 0))
   \<and> f64_val (specRequestsPerSec 10 0 2000000000) = 5"
proof -
  have rate: "f64_val (specRequestsPerSec 10 0 2000000000) = 5"
    by code_simp
  have before: "TestRun.CompletedAt exampleRun = None"
    by (simp add: exampleRun_def)
  have zero: "f64_val f64_zero = 0"
    by (simp add: f64_val_def f64_zero_def)
  have total: "TotalRequests (computeResults exampleRun [exampleResult]) = 10"
    by (simp add: computeResults_def Let_def initialTotals_def exampleResult_def)
  show ?thesis
    using rate computeResults_before_completion [OF before, of "[exampleResult]"] zero total
    by (simp add: completeTestRun_def exampleCoordinator_def Complete_def Let_def exampleRun_def)
qed

section \<open>Rounding to a double\<close>

text \<open>
  Two known doubles as a check of the model: one tenth, which is
  \<open>3602879701896397 * 2 ^ - 55\<close>, and the product of 100 with the double nearest to 0.29,
  which is below 29.
\<close>

lemma f64_one_tenth:
  "f64_val (f64_div (f64_of_int 1) (f64_of_int 10)) = 3602879701896397 / 36028797018963968"
  by code_simp

lemma f64_hundred_times_029:
  "f64_val (f64_mul (f64_of_int 100) (f64_div (f64_of_int 29) (f64_of_int 100))) =
     8162774324609023 / 281474976710656"
  by code_simp

lemma f64_val_powi: "f64_val x = of_int (mantissa x) * 2 powi (exponent x)"
  by (simp add: f64_val_def power_int_def field_simps)

lemma roundHalfEven_floor:
  "n div d \<le> roundHalfEven n d" "roundHalfEven n d \<le> n div d + 1"
  by (auto simp: roundHalfEven_def Let_def)

lemma roundHalfEven_le:
  assumes "0 < d" and "n \<le> k * d"
  shows "roundHalfEven n d \<le> k"
proof -
  have "n div d \<le> (k * d) div d"
    using assms by (intro zdiv_mono1)
  then have le: "n div d \<le> k"
    using assms(1) by simp
  show ?thesis
  proof (cases "n div d = k")
    case True
    have "n = n div d * d + n mod d" by simp
    then have "n = k * d + n mod d" using True by simp
    then have "n mod d \<le> 0" using assms(2) by linarith
    moreover have "0 \<le> n mod d" using assms(1) by simp
    ultimately have "n mod d = 0" by simp
    then show ?thesis using True assms(1) by (simp add: roundHalfEven_def Let_def)
  next
    case False
    then have "n div d + 1 \<le> k" using le by simp
    then show ?thesis using roundHalfEven_floor(2) [of n d] by linarith
  qed
qed

lemma roundHalfEven_ge:
  assumes "0 < d" and "k * d \<le> n"
  shows "k \<le> roundHalfEven n d"
proof -
  have "(k * d) div d \<le> n div d"
    using assms by (intro zdiv_mono1)
  then have "k \<le> n div d"
    using assms(1) by simp
  then show ?thesis
    using roundHalfEven_floor(1) [of n d] by linarith
qed

text \<open>Rounding is monotone in the fraction rounded.\<close>

lemma roundHalfEven_mono:
  assumes "0 < d1" and "0 < d2" and "n1 * d2 \<le> n2 * d1"
  shows "roundHalfEven n1 d1 \<le> roundHalfEven n2 d2"
proof -
  define f1 r1 f2 r2 where "f1 = n1 div d1" and "r1 = n1 mod d1"
    and "f2 = n2 div d2" and "r2 = n2 mod d2"
  define A B D where "A = r1 * d2" and "B = r2 * d1" and "D = d1 * d2"
  have bounds: "0 \<le> r1" "r1 < d1" "0 \<le> r2" "r2 < d2"
    using assms(1,2) by (simp_all add: r1_def r2_def)
  have f: "f1 \<le> f2"
  proof -
    have "f1 = (n1 * d2) div (d1 * d2)"
      using assms(2) by (simp add: f1_def)
    also have "\<dots> \<le> (n2 * d1) div (d1 * d2)"
      using assms by (intro zdiv_mono1) simp_all
    also have "\<dots> = f2"
      using assms(1) by (simp add: f2_def mult.commute [of d1 d2])
    finally show ?thesis .
  qed
  have x1: "n1 * d2 = f1 * D + A"
  proof -
    have "n1 = f1 * d1 + r1" by (simp add: f1_def r1_def)
    then have "n1 * d2 = (f1 * d1 + r1) * d2" by simp
    then show ?thesis by (simp add: A_def D_def distrib_right mult.assoc)
  qed
  have x2: "n2 * d1 = f2 * D + B"
  proof -
    have "n2 = f2 * d2 + r2" by (simp add: f2_def r2_def)
    then have "n2 * d1 = (f2 * d2 + r2) * d1" by simp
    then show ?thesis by (simp add: B_def D_def distrib_right mult.assoc mult.commute [of d2 d1])
  qed
  have rnd1: "roundHalfEven n1 d1 =
      (if 2 * r1 < d1 then f1 else if d1 < 2 * r1 then f1 + 1 else if even f1 then f1 else f1 + 1)"
    and rnd2: "roundHalfEven n2 d2 =
      (if 2 * r2 < d2 then f2 else if d2 < 2 * r2 then f2 + 1 else if even f2 then f2 else f2 + 1)"
    by (simp_all add: roundHalfEven_def Let_def f1_def r1_def f2_def r2_def)
  show ?thesis
  proof (cases "f1 < f2")
    case True
    then show ?thesis
      using roundHalfEven_floor(2) [of n1 d1] roundHalfEven_floor(1) [of n2 d2]
      by (simp add: f1_def f2_def)
  next
    case False
    then have eq: "f1 = f2" using f by simp
    have frac: "A \<le> B"
      using x1 x2 eq assms(3) by simp
    have twoA: "2 * r1 < d1 \<longleftrightarrow> 2 * A < D" "d1 < 2 * r1 \<longleftrightarrow> D < 2 * A"
    proof -
      have "(2 * r1) * d2 < d1 * d2 \<longleftrightarrow> 2 * r1 < d1" "d1 * d2 < (2 * r1) * d2 \<longleftrightarrow> d1 < 2 * r1"
        using assms(2) by (simp_all add: mult_less_cancel_right)
      then show "2 * r1 < d1 \<longleftrightarrow> 2 * A < D" "d1 < 2 * r1 \<longleftrightarrow> D < 2 * A"
        by (simp_all add: A_def D_def mult.assoc)
    qed
    have twoB: "2 * r2 < d2 \<longleftrightarrow> 2 * B < D" "d2 < 2 * r2 \<longleftrightarrow> D < 2 * B"
    proof -
      have "(2 * r2) * d1 < d2 * d1 \<longleftrightarrow> 2 * r2 < d2" "d2 * d1 < (2 * r2) * d1 \<longleftrightarrow> d2 < 2 * r2"
        using assms(1) by (simp_all add: mult_less_cancel_right)
      then show "2 * r2 < d2 \<longleftrightarrow> 2 * B < D" "d2 < 2 * r2 \<longleftrightarrow> D < 2 * B"
        by (simp_all add: B_def D_def mult.assoc mult.commute [of d2 d1])
    qed
    show ?thesis
      unfolding rnd1 rnd2 twoA twoB eq using frac by auto
  qed
qed

lemma scaled_pos: "0 < q \<Longrightarrow> 0 < snd (scaled p q s)"
  by (simp add: scaled_def)

lemma scaled_val:
  "0 < q \<Longrightarrow>
   (of_int (fst (scaled p q s)) :: rat) / of_int (snd (scaled p q s)) =
     of_int p / of_int q * 2 powi s"
  by (simp add: scaled_def power_int_def field_simps)

lemma two_powi_pos: "0 < (2::rat) powi n"
  by (simp add: power_int_def)

lemma bitlen_powi:
  assumes "0 < p"
  shows "(2::rat) powi (bitlen p) \<le> 2 * of_int p" and "(of_int p :: rat) < 2 powi (bitlen p)"
proof -
  have pos: "1 \<le> bitlen p"
    using assms bitlen_eq_zero_iff [of p] bitlen_nonneg [of p] by linarith
  from bitlen_bounds [OF assms]
  have lo: "2 ^ nat (bitlen p - 1) \<le> p" and hi: "p < 2 ^ nat (bitlen p)" by simp_all
  have "(of_int p :: rat) < of_int (2 ^ nat (bitlen p))"
    using hi by (simp only: of_int_less_iff)
  then show "(of_int p :: rat) < 2 powi (bitlen p)"
    using pos by (simp add: power_int_def)
  have "(of_int (2 ^ nat (bitlen p - 1)) :: rat) \<le> of_int p"
    using lo by (simp only: of_int_le_iff)
  then have "(2::rat) ^ nat (bitlen p - 1) \<le> of_int p" by simp
  moreover have "(2::rat) powi (bitlen p) = 2 * 2 ^ nat (bitlen p - 1)"
  proof -
    have "nat (bitlen p) = Suc (nat (bitlen p - 1))" using pos by simp
    then show ?thesis using pos by (simp add: power_int_def)
  qed
  ultimately show "(2::rat) powi (bitlen p) \<le> 2 * of_int p" by simp
qed

lemma binadeShift_test:
  assumes "0 < q"
  shows "2 ^ 52 * snd (scaled p q s) \<le> fst (scaled p q s) \<longleftrightarrow>
         (2::rat) ^ 52 \<le> of_int p / of_int q * 2 powi s"
proof -
  have pos: "(0::rat) < of_int (snd (scaled p q s))"
    using scaled_pos [OF assms, of p s] by simp
  have "(2::rat) ^ 52 \<le> of_int (fst (scaled p q s)) / of_int (snd (scaled p q s)) \<longleftrightarrow>
      (2::rat) ^ 52 * of_int (snd (scaled p q s)) \<le> of_int (fst (scaled p q s))"
    using pos by (simp add: pos_le_divide_eq)
  also have "\<dots> \<longleftrightarrow> (of_int (2 ^ 52 * snd (scaled p q s)) :: rat) \<le> of_int (fst (scaled p q s))"
    by simp
  also have "\<dots> \<longleftrightarrow> 2 ^ 52 * snd (scaled p q s) \<le> fst (scaled p q s)"
    by (simp only: of_int_le_iff)
  finally show ?thesis
    using scaled_val [OF assms, of p s] by simp
qed

lemma binadeShift_bounds:
  assumes "0 < p" and "0 < q"
  shows "(2::rat) ^ 52 \<le> of_int p / of_int q * 2 powi (binadeShift p q)"
    and "of_int p / of_int q * 2 powi (binadeShift p q) < (2::rat) ^ 53"
proof -
  define P Q :: rat where "P = 2 powi (bitlen p)" and "Q = 2 powi (bitlen q)"
  define x :: rat where "x = of_int p / of_int q"
  define s0 where "s0 = 52 - (bitlen p - bitlen q)"
  define y0 where "y0 = x * 2 powi s0"
  have PQ: "0 < P" "0 < Q" by (simp_all add: P_def Q_def two_powi_pos)
  have p: "P \<le> 2 * of_int p" "of_int p < P" and q: "Q \<le> 2 * of_int q" "of_int q < Q"
    using bitlen_powi [OF assms(1)] bitlen_powi [OF assms(2)] by (simp_all add: P_def Q_def)
  have pq: "(0::rat) < of_int p" "(0::rat) < of_int q" using assms by simp_all
  have s0: "(2::rat) powi s0 = 2 ^ 52 * Q / P"
    by (simp add: s0_def P_def Q_def power_int_diff power_int_add field_simps)
  define A B :: rat where "A = of_int q * P" and "B = of_int p * Q"
  have AB: "0 < A" "0 < B" using pq PQ by (simp_all add: A_def B_def)
  have y0: "y0 = (B * 2 ^ 52) / A"
    by (simp add: y0_def x_def s0 A_def B_def)
  have "of_int q * P < Q * P" using q(2) PQ(1) by (intro mult_strict_right_mono)
  also have "\<dots> \<le> Q * (2 * of_int p)" using p(1) PQ(2) by (intro mult_left_mono) simp_all
  finally have ab: "A < 2 * B" by (simp add: A_def B_def mult.commute)
  have "of_int p * Q < P * Q" using p(2) PQ(2) by (intro mult_strict_right_mono)
  also have "\<dots> \<le> P * (2 * of_int q)" using q(1) PQ(1) by (intro mult_left_mono) simp_all
  finally have ba: "B < 2 * A" by (simp add: A_def B_def mult.commute)
  have lo: "2 ^ 51 < y0"
  proof -
    have "2 ^ 51 * A < B * 2 ^ 52" using ab by simp
    then show ?thesis using AB(1) by (simp add: y0 pos_less_divide_eq)
  qed
  have hi: "y0 < 2 ^ 53"
  proof -
    have "B * 2 ^ 52 < 2 ^ 53 * A" using ba by simp
    then show ?thesis using AB(1) by (simp add: y0 pos_divide_less_eq)
  qed
  have next_one: "x * 2 powi (s0 + 1) = 2 * y0"
    by (simp add: y0_def power_int_add)
  have shift: "binadeShift p q = (if 2 ^ 52 \<le> y0 then s0 else s0 + 1)"
    using binadeShift_test [OF assms(2), of p s0]
    by (simp add: binadeShift_def Let_def s0_def y0_def x_def)
  show "(2::rat) ^ 52 \<le> of_int p / of_int q * 2 powi (binadeShift p q)"
    using lo next_one by (auto simp: shift x_def [symmetric] y0_def [symmetric])
  show "of_int p / of_int q * 2 powi (binadeShift p q) < (2::rat) ^ 53"
    using hi next_one by (auto simp: shift x_def [symmetric] y0_def [symmetric])
qed

text \<open>The scaled fraction of a positive ratio and its rounded mantissa.\<close>

lemma round53_mantissa:
  assumes "0 < p" and "0 < q"
  shows "mantissa (round53 p q) =
           roundHalfEven (fst (scaled p q (binadeShift p q))) (snd (scaled p q (binadeShift p q)))"
    and "exponent (round53 p q) = - binadeShift p q"
    and "2 ^ 52 \<le> mantissa (round53 p q)" and "mantissa (round53 p q) \<le> 2 ^ 53"
proof -
  let ?s = "binadeShift p q"
  let ?n = "fst (scaled p q ?s)" and ?d = "snd (scaled p q ?s)"
  have d: "0 < ?d" using assms(2) by (rule scaled_pos)
  show m: "mantissa (round53 p q) = roundHalfEven ?n ?d"
    and "exponent (round53 p q) = - ?s"
    using assms(1) by (simp_all add: round53_def Let_def)
  have frac: "(of_int ?n :: rat) / of_int ?d = of_int p / of_int q * 2 powi ?s"
    using assms(2) by (rule scaled_val)
  have "(2::rat) ^ 52 \<le> of_int ?n / of_int ?d" "(of_int ?n :: rat) / of_int ?d < 2 ^ 53"
    using binadeShift_bounds [OF assms] frac by simp_all
  then have "(2::rat) ^ 52 * of_int ?d \<le> of_int ?n" "(of_int ?n :: rat) < 2 ^ 53 * of_int ?d"
    using d by (simp_all add: pos_le_divide_eq pos_divide_less_eq)
  then have "(of_int (2 ^ 52 * ?d) :: rat) \<le> of_int ?n" "(of_int ?n :: rat) < of_int (2 ^ 53 * ?d)"
    by simp_all
  then have lo: "2 ^ 52 * ?d \<le> ?n" and hi: "?n \<le> 2 ^ 53 * ?d"
    by (simp_all only: of_int_le_iff of_int_less_iff less_imp_le)
  show "2 ^ 52 \<le> mantissa (round53 p q)"
    unfolding m using d lo by (rule roundHalfEven_ge)
  show "mantissa (round53 p q) \<le> 2 ^ 53"
    unfolding m using d hi by (rule roundHalfEven_le)
qed

lemma round53_nonneg: "0 \<le> p \<Longrightarrow> 0 < q \<Longrightarrow> 0 \<le> mantissa (round53 p q)"
  using round53_mantissa(3) [of p q] by (cases "p = 0") (simp_all add: round53_def)

text \<open>
  Rounding never passes a number that is itself a double: if the exact value is at most
  \<open>k * 2 ^ j\<close> with \<open>k < 2 ^ 53\<close>, so is the rounded one.
\<close>

lemma round53_upper:
  assumes "0 \<le> p" and "0 < q" and "0 \<le> k" and "k < 2 ^ 53"
    and "(of_int p :: rat) / of_int q \<le> of_int k * 2 powi j"
  shows "f64_val (round53 p q) \<le> of_int k * 2 powi j"
proof (cases "p = 0")
  case True
  then show ?thesis
    using assms(3) by (simp add: round53_def f64_val_def two_powi_pos less_imp_le)
next
  case False
  then have p: "0 < p" using assms(1) by simp
  let ?s = "binadeShift p q"
  let ?n = "fst (scaled p q ?s)" and ?d = "snd (scaled p q ?s)"
  define t where "t = j + ?s"
  have d: "0 < ?d" using assms(2) by (rule scaled_pos)
  have frac: "(of_int ?n :: rat) / of_int ?d = of_int p / of_int q * 2 powi ?s"
    using assms(2) by (rule scaled_val)
  have scaled_le: "(of_int ?n :: rat) / of_int ?d \<le> of_int k * 2 powi t"
  proof -
    have "of_int p / of_int q * 2 powi ?s \<le> (of_int k * 2 powi j) * (2::rat) powi ?s"
      using assms(5) two_powi_pos [of ?s] by (intro mult_right_mono) simp_all
    then show ?thesis by (simp add: frac t_def power_int_add mult.assoc)
  qed
  have t: "0 \<le> t"
  proof (rule ccontr)
    assume "\<not> 0 \<le> t"
    then have "t \<le> - 1" by simp
    then have "(2::rat) powi t \<le> 2 powi (- 1)"
      by (intro power_int_increasing) simp_all
    then have "(2::rat) powi t \<le> 1 / 2" by simp
    moreover have "(of_int k :: rat) < 2 ^ 53" "(0::rat) \<le> of_int k"
      using assms(3,4) by (simp_all add: of_int_less_iff [of k "2 ^ 53", where ?'a = rat, simplified])
    ultimately have "of_int k * (2::rat) powi t \<le> of_int k * (1 / 2)"
      by (intro mult_left_mono) simp_all
    then have "of_int k * (2::rat) powi t < 2 ^ 52"
      using \<open>(of_int k :: rat) < 2 ^ 53\<close> by simp
    moreover have "(2::rat) ^ 52 \<le> of_int ?n / of_int ?d"
      using binadeShift_bounds(1) [OF p assms(2)] frac by simp
    ultimately show False using scaled_le by linarith
  qed
  define K where "K = k * 2 ^ nat t"
  have K: "(of_int K :: rat) = of_int k * 2 powi t"
    using t by (simp add: K_def power_int_def)
  have "(of_int ?n :: rat) \<le> of_int K * of_int ?d"
    using scaled_le d by (simp add: K pos_divide_le_eq)
  then have "(of_int ?n :: rat) \<le> of_int (K * ?d)" by simp
  then have "?n \<le> K * ?d" by (simp only: of_int_le_iff)
  then have "roundHalfEven ?n ?d \<le> K" using d by (intro roundHalfEven_le)
  then have m: "mantissa (round53 p q) \<le> K"
    using round53_mantissa(1) [OF p assms(2)] by simp
  have "f64_val (round53 p q) = of_int (mantissa (round53 p q)) * 2 powi (- ?s)"
    using round53_mantissa(2) [OF p assms(2)] by (simp add: f64_val_powi)
  also have "\<dots> \<le> of_int K * 2 powi (- ?s)"
    using m two_powi_pos [of "- ?s"] by (intro mult_right_mono) simp_all
  also have "\<dots> = of_int k * 2 powi j"
    by (simp add: K t_def power_int_add power_int_minus field_simps)
  finally show ?thesis .
qed

text \<open>Rounding is monotone.\<close>

lemma round53_mono:
  assumes "0 < p1" and "0 < q1" and "0 < p2" and "0 < q2"
    and "(of_int p1 :: rat) / of_int q1 \<le> of_int p2 / of_int q2"
  shows "f64_val (round53 p1 q1) \<le> f64_val (round53 p2 q2)"
proof -
  define x1 x2 :: rat where "x1 = of_int p1 / of_int q1" and "x2 = of_int p2 / of_int q2"
  define s1 s2 where "s1 = binadeShift p1 q1" and "s2 = binadeShift p2 q2"
  define m1 m2 where "m1 = mantissa (round53 p1 q1)" and "m2 = mantissa (round53 p2 q2)"
  have x: "0 < x1" "x1 \<le> x2" using assms by (simp_all add: x1_def x2_def)
  have b1: "2 ^ 52 \<le> x1 * 2 powi s1" "x1 * 2 powi s1 < 2 ^ 53"
    using binadeShift_bounds [OF assms(1,2)] by (simp_all add: x1_def s1_def)
  have b2: "2 ^ 52 \<le> x2 * 2 powi s2" "x2 * 2 powi s2 < 2 ^ 53"
    using binadeShift_bounds [OF assms(3,4)] by (simp_all add: x2_def s2_def)
  have v1: "f64_val (round53 p1 q1) = of_int m1 * 2 powi (- s1)"
    and v2: "f64_val (round53 p2 q2) = of_int m2 * 2 powi (- s2)"
    using round53_mantissa(2) [OF assms(1,2)] round53_mantissa(2) [OF assms(3,4)]
    by (simp_all add: f64_val_powi m1_def m2_def s1_def s2_def)
  have m1: "m1 \<le> 2 ^ 53" and m2: "2 ^ 52 \<le> m2"
    using round53_mantissa(4) [OF assms(1,2)] round53_mantissa(3) [OF assms(3,4)]
    by (simp_all add: m1_def m2_def)
  have order: "s2 \<le> s1"
  proof (rule ccontr)
    assume "\<not> s2 \<le> s1"
    then have "s1 + 1 \<le> s2" by simp
    then have "(2::rat) powi (s1 + 1) \<le> 2 powi s2"
      by (intro power_int_increasing) simp_all
    then have "x1 * 2 powi (s1 + 1) \<le> x1 * 2 powi s2"
      using x(1) by (intro mult_left_mono) simp_all
    also have "\<dots> \<le> x2 * 2 powi s2"
      using x(2) two_powi_pos [of s2] by (intro mult_right_mono) simp_all
    finally have "2 * (x1 * 2 powi s1) < 2 ^ 53"
      using b2(2) by (simp add: power_int_add)
    then show False using b1(1) by simp
  qed
  show ?thesis
  proof (cases "s1 = s2")
    case True
    let ?n1 = "fst (scaled p1 q1 s1)" and ?d1 = "snd (scaled p1 q1 s1)"
    let ?n2 = "fst (scaled p2 q2 s2)" and ?d2 = "snd (scaled p2 q2 s2)"
    have d: "0 < ?d1" "0 < ?d2" using assms(2,4) by (simp_all add: scaled_pos)
    have "(of_int ?n1 :: rat) / of_int ?d1 \<le> of_int ?n2 / of_int ?d2"
    proof -
      have "x1 * 2 powi s1 \<le> x2 * 2 powi s1"
        using x(2) two_powi_pos [of s1] by (intro mult_right_mono) simp_all
      then show ?thesis
        using scaled_val [OF assms(2), of p1 s1] scaled_val [OF assms(4), of p2 s2] True
        by (simp add: x1_def x2_def)
    qed
    moreover have "(0::rat) < of_int ?d1" "(0::rat) < of_int ?d2"
      using d by simp_all
    ultimately have "(of_int ?n1 :: rat) * of_int ?d2 \<le> of_int ?n2 * of_int ?d1"
      by (simp add: field_simps)
    then have "(of_int (?n1 * ?d2) :: rat) \<le> of_int (?n2 * ?d1)" by simp
    then have "?n1 * ?d2 \<le> ?n2 * ?d1" by (simp only: of_int_le_iff)
    then have "roundHalfEven ?n1 ?d1 \<le> roundHalfEven ?n2 ?d2"
      using d by (intro roundHalfEven_mono)
    then have "m1 \<le> m2"
      using round53_mantissa(1) [OF assms(1,2)] round53_mantissa(1) [OF assms(3,4)]
      by (simp add: m1_def m2_def s1_def s2_def)
    then show ?thesis
      unfolding v1 v2 True using two_powi_pos [of "- s2"]
      by (intro mult_right_mono) simp_all
  next
    case False
    then have "1 - s1 \<le> - s2" using order by simp
    then have step: "(2::rat) powi (1 - s1) \<le> 2 powi (- s2)"
      by (intro power_int_increasing) simp_all
    have "of_int m1 * (2::rat) powi (- s1) \<le> 2 ^ 53 * 2 powi (- s1)"
    proof -
      have "(of_int m1 :: rat) \<le> of_int (2 ^ 53)" using m1 by (simp only: of_int_le_iff)
      then show ?thesis using two_powi_pos [of "- s1"] by (intro mult_right_mono) simp_all
    qed
    also have "\<dots> = 2 ^ 52 * (2::rat) powi (1 - s1)"
      by (simp add: power_int_diff power_int_minus field_simps)
    also have "\<dots> \<le> 2 ^ 52 * (2::rat) powi (- s2)"
      using step by (intro mult_left_mono) simp_all
    also have "\<dots> \<le> of_int m2 * (2::rat) powi (- s2)"
    proof -
      have "(of_int (2 ^ 52) :: rat) \<le> of_int m2" using m2 by (simp only: of_int_le_iff)
      then show ?thesis using two_powi_pos [of "- s2"] by (intro mult_right_mono) simp_all
    qed
    finally show ?thesis unfolding v1 v2 .
  qed
qed

section \<open>The linear target\<close>

lemma f64_ratio_nonneg:
  assumes "0 \<le> p" and "0 < q"
  shows "mantissa (f64_ratio p q e) = mantissa (round53 p q)"
    and "0 \<le> mantissa (f64_ratio p q e)"
    and "f64_val (f64_ratio p q e) = f64_val (round53 p q) * 2 powi e"
  using assms round53_nonneg [OF assms]
  by (simp_all add: f64_ratio_def Let_def f64_val_powi power_int_add mult.assoc)

lemma f64_val_nonneg: "0 \<le> mantissa x \<Longrightarrow> 0 \<le> f64_val x"
  by (simp add: f64_val_powi two_powi_pos less_imp_le)

lemma f64_of_int_pos:
  assumes "0 < i"
  shows "0 < mantissa (f64_of_int i)"
  using round53_mantissa(3) [of i 1] assms
  by (simp add: f64_of_int_def f64_ratio_def Let_def)

lemma f64_of_int_mono:
  assumes "0 \<le> a" and "a \<le> b"
  shows "f64_val (f64_of_int a) \<le> f64_val (f64_of_int b)"
proof (cases "a = 0")
  case True
  have "0 \<le> mantissa (f64_of_int b)"
    using assms by (simp add: f64_of_int_def f64_ratio_nonneg(2))
  then have "0 \<le> f64_val (f64_of_int b)" by (rule f64_val_nonneg)
  moreover have "f64_val (f64_of_int 0) = 0"
    by (simp add: f64_of_int_def f64_ratio_def round53_def f64_val_def)
  ultimately show ?thesis using True by simp
next
  case False
  then have a: "0 < a" and b: "0 < b" using assms by simp_all
  have "f64_val (round53 a 1) \<le> f64_val (round53 b 1)"
    using a b assms(2) by (intro round53_mono) simp_all
  then show ?thesis
    using a b by (simp add: f64_of_int_def f64_ratio_nonneg(3))
qed

lemma f64_of_int_upper:
  assumes "0 \<le> i" and "i < 2 ^ 53"
  shows "f64_val (f64_of_int i) \<le> of_int i"
proof -
  have "f64_val (round53 i 1) \<le> of_int i * 2 powi 0"
    using assms by (intro round53_upper) simp_all
  then show ?thesis
    using assms(1) by (simp add: f64_of_int_def f64_ratio_nonneg(3))
qed

text \<open>The progress \<^verbatim>\<open>float64(elapsed) / float64(duration)\<close> is between 0 and 1.\<close>

lemma progress_range:
  assumes "0 \<le> el" and "el < d"
  shows "0 \<le> mantissa (f64_div (f64_of_int el) (f64_of_int d))"
    and "f64_val (f64_div (f64_of_int el) (f64_of_int d)) \<le> 1"
proof -
  let ?fe = "f64_of_int el" and ?fd = "f64_of_int d"
  let ?quot = "f64_ratio (mantissa ?fe) (mantissa ?fd) (exponent ?fe - exponent ?fd)"
  have d: "0 < d" using assms by simp
  have md: "0 < mantissa ?fd" using d by (rule f64_of_int_pos)
  have me: "0 \<le> mantissa ?fe"
    using assms(1) by (simp add: f64_of_int_def f64_ratio_nonneg(2))
  have quot: "f64_div ?fe ?fd = ?quot"
    using md by (simp add: f64_div_def)
  show "0 \<le> mantissa (f64_div ?fe ?fd)"
    unfolding quot using me md by (rule f64_ratio_nonneg(2))
  have le: "f64_val ?fe \<le> f64_val ?fd"
    using assms by (intro f64_of_int_mono) simp_all
  have ratio: "(of_int (mantissa ?fe) :: rat) / of_int (mantissa ?fd) \<le>
      of_int 1 * 2 powi (exponent ?fd - exponent ?fe)"
  proof -
    have "(of_int (mantissa ?fe) :: rat) * 2 powi (exponent ?fe) \<le>
        of_int (mantissa ?fd) * 2 powi (exponent ?fd)"
      using le by (simp add: f64_val_powi)
    moreover have "(0::rat) < of_int (mantissa ?fd)" using md by simp
    moreover have "(0::rat) < 2 powi (exponent ?fe)" by (rule two_powi_pos)
    ultimately show ?thesis
      by (simp add: power_int_diff field_simps)
  qed
  have "f64_val (round53 (mantissa ?fe) (mantissa ?fd)) \<le>
      of_int 1 * 2 powi (exponent ?fd - exponent ?fe)"
    using me md ratio by (intro round53_upper) simp_all
  then have "f64_val (round53 (mantissa ?fe) (mantissa ?fd)) * 2 powi (exponent ?fe - exponent ?fd)
      \<le> (of_int 1 * 2 powi (exponent ?fd - exponent ?fe)) * 2 powi (exponent ?fe - exponent ?fd)"
    using two_powi_pos [of "exponent ?fe - exponent ?fd"]
    by (intro mult_right_mono) simp_all
  also have "\<dots> = 1"
    by (simp add: power_int_diff)
  finally have "f64_val ?quot \<le> 1"
    using f64_ratio_nonneg(3) [OF me md] by simp
  then show "f64_val (f64_div ?fe ?fd) \<le> 1"
    unfolding quot .
qed

lemma f64_to_int_floor:
  assumes "0 \<le> mantissa x"
  shows "f64_to_int x = \<lfloor>f64_val x\<rfloor>"
proof (cases "0 \<le> exponent x")
  case True
  then have "f64_val x = of_int (mantissa x * 2 ^ nat (exponent x))"
    by (simp only: f64_val_def if_True)
  then have "\<lfloor>f64_val x\<rfloor> = mantissa x * 2 ^ nat (exponent x)"
    by (simp only: floor_of_int)
  then show ?thesis using True by (simp add: f64_to_int_def)
next
  case False
  then have "f64_val x = of_int (mantissa x) / of_int (2 ^ nat (- exponent x))"
    by (simp only: f64_val_def if_False)
  then have "\<lfloor>f64_val x\<rfloor> = mantissa x div 2 ^ nat (- exponent x)"
    by (simp only: floor_divide_of_int_eq)
  then show ?thesis using False assms by (simp add: f64_to_int_def)
qed

text \<open>
  For a positive duration the progress is a finite double, and the target is the floor
  of the double product when that floor is a 64-bit value.
\<close>

lemma linearConcurrency_floor:
  assumes "0 < d"
    and "0 \<le> mantissa (f64_mul (f64_of_int maxC) (f64_div (f64_of_int el) (f64_of_int d)))"
    and "in64 \<lfloor>f64_val (f64_mul (f64_of_int maxC) (f64_div (f64_of_int el) (f64_of_int d)))\<rfloor>"
  shows "linearConcurrency maxC el d =
    \<lfloor>f64_val (f64_mul (f64_of_int maxC) (f64_div (f64_of_int el) (f64_of_int d)))\<rfloor>"
proof -
  let ?x = "f64_mul (f64_of_int maxC) (f64_div (f64_of_int el) (f64_of_int d))"
  have "0 < mantissa (f64_of_int d)" using assms(1) by (rule f64_of_int_pos)
  then have quot: "f64_quot (f64_of_int el) (f64_of_int d)
      = Some (f64_div (f64_of_int el) (f64_of_int d))"
    by (simp add: f64_quot_def)
  have cut: "f64_to_int ?x = \<lfloor>f64_val ?x\<rfloor>"
    using assms(2) by (rule f64_to_int_floor)
  show ?thesis
    using assms(3) by (simp add: linearConcurrency_def quot f64_to_int64_def cut)
qed

lemma linearConcurrency_range:
  assumes "0 \<le> el" and "el < d" and "0 \<le> maxC" and "maxC < 2 ^ 53"
  shows "0 \<le> linearConcurrency maxC el d" and "linearConcurrency maxC el d \<le> maxC"
    and "linearConcurrency maxC el d =
      \<lfloor>f64_val (f64_mul (f64_of_int maxC) (f64_div (f64_of_int el) (f64_of_int d)))\<rfloor>"
proof -
  let ?fm = "f64_of_int maxC"
  let ?pr = "f64_div (f64_of_int el) (f64_of_int d)"
  define E where "E = exponent ?fm + exponent ?pr"
  define N where "N = mantissa ?fm * mantissa ?pr"
  define T :: rat where "T = 2 powi E"
  have T: "0 < T" unfolding T_def by (rule two_powi_pos)
  have inv: "(2::rat) powi (- E) = inverse T"
    by (simp only: T_def power_int_minus)
  have mm: "0 \<le> mantissa ?fm"
    using assms(3) by (simp add: f64_of_int_def f64_ratio_nonneg(2))
  have mp: "0 \<le> mantissa ?pr" and vp: "f64_val ?pr \<le> 1"
    using progress_range [OF assms(1,2)] by simp_all
  have vm: "f64_val ?fm \<le> of_int maxC"
    using assms(3,4) by (rule f64_of_int_upper)
  have N: "0 \<le> N" using mm mp by (simp add: N_def)
  have "f64_val ?fm * f64_val ?pr \<le> f64_val ?fm * 1"
    using vp f64_val_nonneg [OF mm] by (intro mult_left_mono)
  then have exact: "f64_val ?fm * f64_val ?pr \<le> of_int maxC" using vm by simp
  have "f64_val ?fm * f64_val ?pr = of_int N * T"
    by (simp add: f64_val_powi power_int_add N_def T_def E_def)
  then have "of_int N * T \<le> of_int maxC" using exact by simp
  then have "of_int N \<le> of_int maxC * inverse T"
    using T by (simp add: field_simps)
  then have "(of_int N :: rat) / of_int 1 \<le> of_int maxC * 2 powi (- E)"
    unfolding inv of_int_1 div_by_1 .
  then have "f64_val (round53 N 1) \<le> of_int maxC * 2 powi (- E)"
    using N assms(3,4) by (intro round53_upper) simp_all
  then have "f64_val (round53 N 1) \<le> of_int maxC / T"
    unfolding inv by (simp add: divide_inverse)
  then have "f64_val (round53 N 1) * T \<le> of_int maxC"
    using T by (simp add: pos_le_divide_eq)
  then have upper: "f64_val (f64_ratio N 1 E) \<le> of_int maxC"
    using f64_ratio_nonneg(3) [OF N, of 1 E] by (simp add: T_def)
  have mant: "0 \<le> mantissa (f64_ratio N 1 E)"
    using N by (intro f64_ratio_nonneg(2)) simp_all
  have prod: "f64_mul ?fm ?pr = f64_ratio N 1 E"
    by (simp add: f64_mul_def N_def E_def)
  have lower: "0 \<le> \<lfloor>f64_val (f64_ratio N 1 E)\<rfloor>"
    using f64_val_nonneg [OF mant] by simp
  have cut: "\<lfloor>f64_val (f64_ratio N 1 E)\<rfloor> \<le> maxC"
    using upper by (simp add: floor_le_iff)
  have "in64 \<lfloor>f64_val (f64_ratio N 1 E)\<rfloor>"
  proof -
    define F where "F = \<lfloor>f64_val (f64_ratio N 1 E)\<rfloor>"
    have "0 \<le> F" "F \<le> maxC" using lower cut by (simp_all only: F_def)
    then have "in64 F" using assms(4) by (simp add: in64_def)
    then show ?thesis by (simp only: F_def)
  qed
  moreover have "0 < d" using assms(1,2) by simp
  ultimately have target: "linearConcurrency maxC el d = \<lfloor>f64_val (f64_ratio N 1 E)\<rfloor>"
    using mant linearConcurrency_floor [of d maxC el] by (simp only: prod)
  show "0 \<le> linearConcurrency maxC el d"
    unfolding target by (rule lower)
  show "linearConcurrency maxC el d \<le> maxC"
    unfolding target by (rule cut)
  show "linearConcurrency maxC el d = \<lfloor>f64_val (f64_mul ?fm ?pr)\<rfloor>"
    using target by (simp only: prod)
qed

lemma f64_ratio_zero: "mantissa (f64_ratio 0 q e) = 0"
  by (simp add: f64_ratio_def round53_def)

lemma linearConcurrency_start:
  assumes "0 < d"
  shows "linearConcurrency maxC 0 d = 0"
proof -
  let ?x = "f64_mul (f64_of_int maxC) (f64_div (f64_of_int 0) (f64_of_int d))"
  have "mantissa (f64_of_int 0) = 0"
    by (simp add: f64_of_int_def f64_ratio_zero)
  then have "mantissa (f64_div (f64_of_int 0) (f64_of_int d)) = 0"
    by (simp add: f64_div_def f64_ratio_zero)
  then have zero: "mantissa ?x = 0"
    by (simp add: f64_mul_def f64_ratio_zero)
  then have val: "f64_val ?x = 0" by (simp add: f64_val_def)
  have "linearConcurrency maxC 0 d = \<lfloor>f64_val ?x\<rfloor>"
    using assms zero by (intro linearConcurrency_floor) (simp_all add: val in64_def)
  then show ?thesis by (simp add: val)
qed

text \<open>
  Each rounding is within a relative error of \<open>1 / 2 ^ 53\<close>, so the double product is
  within a relative error of \<open>1 / 2 ^ 50\<close> of the exact value \<open>max * elapsed / duration\<close>.
\<close>

text \<open>The rounded integer is within one half of the fraction.\<close>

lemma roundHalfEven_near:
  assumes "0 < d"
  shows "2 * \<bar>roundHalfEven n d * d - n\<bar> \<le> d"
proof -
  define f r where "f = n div d" and "r = n mod d"
  have n: "n = f * d + r" by (simp add: f_def r_def)
  have r: "0 \<le> r" "r < d" using assms by (simp_all add: r_def)
  have rnd: "roundHalfEven n d =
      (if 2 * r < d then f else if d < 2 * r then f + 1 else if even f then f else f + 1)"
    by (simp add: roundHalfEven_def Let_def f_def r_def)
  have up: "(f + 1) * d - n = d - r" and down: "f * d - n = - r"
    using n by (simp_all add: algebra_simps)
  show ?thesis
    unfolding rnd using r up down by (auto simp: abs_if)
qed

text \<open>The relative error of rounding is at most \<open>2 ^ - 53\<close>.\<close>

lemma round53_relative:
  assumes "0 < p" and "0 < q"
  shows "\<bar>f64_val (round53 p q) - of_int p / of_int q\<bar> \<le> (of_int p / of_int q) / 2 ^ 53"
proof -
  let ?s = "binadeShift p q"
  let ?n = "fst (scaled p q ?s)" and ?d = "snd (scaled p q ?s)"
  define m where "m = roundHalfEven ?n ?d"
  define x :: rat where "x = of_int p / of_int q"
  define y :: rat where "y = of_int ?n / of_int ?d"
  define T :: rat where "T = 2 powi (- ?s)"
  have T: "0 < T" unfolding T_def by (rule two_powi_pos)
  have d: "0 < ?d" using assms(2) by (rule scaled_pos)
  have dr: "(0::rat) < of_int ?d" using d by simp
  have y: "y = x * 2 powi ?s"
    unfolding y_def x_def using assms(2) by (rule scaled_val)
  have xy: "x = y * T"
    by (simp add: y T_def power_int_minus)
  have ylo: "2 ^ 52 \<le> y"
    using binadeShift_bounds(1) [OF assms] by (simp add: y x_def)
  have v: "f64_val (round53 p q) = of_int m * T"
    using round53_mantissa(1,2) [OF assms] by (simp add: f64_val_powi m_def T_def)
  have "2 * \<bar>m * ?d - ?n\<bar> \<le> ?d"
    unfolding m_def using d by (rule roundHalfEven_near)
  then have "(of_int (2 * \<bar>m * ?d - ?n\<bar>) :: rat) \<le> of_int ?d"
    by (simp only: of_int_le_iff)
  then have "2 * \<bar>(of_int m :: rat) * of_int ?d - of_int ?n\<bar> \<le> of_int ?d"
    by simp
  moreover have "\<bar>(of_int m :: rat) * of_int ?d - of_int ?n\<bar> = \<bar>of_int m - y\<bar> * of_int ?d"
  proof -
    have "(of_int m :: rat) * of_int ?d - of_int ?n = (of_int m - y) * of_int ?d"
      using dr by (simp add: y_def field_simps)
    then show ?thesis using dr by (simp add: abs_mult)
  qed
  ultimately have "(2 * \<bar>of_int m - y\<bar>) * of_int ?d \<le> 1 * of_int ?d"
    by simp
  then have near: "2 * \<bar>of_int m - y\<bar> \<le> 1"
    using dr by (simp only: mult_le_cancel_right_pos)
  have "\<bar>f64_val (round53 p q) - x\<bar> = \<bar>of_int m - y\<bar> * T"
  proof -
    have "f64_val (round53 p q) - x = (of_int m - y) * T"
      by (simp add: v xy algebra_simps)
    then show ?thesis using T by (simp add: abs_mult)
  qed
  also have "\<dots> \<le> (1 / 2) * T"
    using near T by (intro mult_right_mono) simp_all
  also have "\<dots> \<le> (y / 2 ^ 53) * T"
    using ylo T by (intro mult_right_mono) simp_all
  also have "\<dots> = x / 2 ^ 53"
    by (simp add: xy)
  finally show ?thesis by (simp add: x_def)
qed

lemma f64_of_int_exact:
  assumes "0 \<le> i" and "i < 2 ^ 53"
  shows "f64_val (f64_of_int i) = of_int i"
proof (cases "i = 0")
  case True
  then show ?thesis
    by (simp add: f64_of_int_def f64_ratio_def round53_def f64_val_def)
next
  case False
  then have i: "0 < i" using assms(1) by simp
  let ?s = "binadeShift i 1"
  have lo: "(2::rat) ^ 52 \<le> of_int i * 2 powi ?s"
    using binadeShift_bounds(1) [OF i, of 1] by simp
  have s: "0 \<le> ?s"
  proof (rule ccontr)
    assume "\<not> 0 \<le> ?s"
    then have "?s \<le> - 1" by simp
    then have "(2::rat) powi ?s \<le> 2 powi (- 1)"
      by (intro power_int_increasing) simp_all
    then have "(2::rat) powi ?s \<le> 1 / 2" by simp
    moreover have ir: "(0::rat) \<le> of_int i" "(of_int i :: rat) < 2 ^ 53"
      using assms by (simp_all add: of_int_less_iff [of i "2 ^ 53", where ?'a = rat, simplified])
    ultimately have "of_int i * (2::rat) powi ?s \<le> of_int i * (1 / 2)"
      by (intro mult_left_mono) simp_all
    then show False using lo ir(2) by simp
  qed
  have "mantissa (round53 i 1) = i * 2 ^ nat ?s"
    using round53_mantissa(1) [OF i, of 1] s by (simp add: scaled_def roundHalfEven_def)
  moreover have "exponent (round53 i 1) = - ?s"
    using round53_mantissa(2) [OF i, of 1] by simp
  ultimately have "f64_val (round53 i 1) = of_int (i * 2 ^ nat ?s) * 2 powi (- ?s)"
    by (simp add: f64_val_powi)
  also have "\<dots> = of_int i"
  proof -
    have "(2::rat) powi ?s = 2 ^ nat ?s" using s by (simp add: power_int_def)
    then have "(2::rat) powi (- ?s) = inverse (2 ^ nat ?s)"
      by (simp only: power_int_minus)
    then show ?thesis by simp
  qed
  finally show ?thesis
    using assms(1) by (simp add: f64_of_int_def f64_ratio_nonneg(3))
qed

text \<open>Every operation on positive operands, as a two-sided relative bound.\<close>

lemma f64_ratio_relative:
  assumes "0 < p" and "0 < q"
  shows "(1 - 1 / 2 ^ 53) * (of_int p / of_int q * 2 powi e) \<le> f64_val (f64_ratio p q e)"
    and "f64_val (f64_ratio p q e) \<le> (1 + 1 / 2 ^ 53) * (of_int p / of_int q * 2 powi e)"
    and "0 < mantissa (f64_ratio p q e)"
proof -
  define x :: rat where "x = of_int p / of_int q"
  define v where "v = f64_val (round53 p q)"
  define T :: rat where "T = 2 powi e"
  have T: "0 < T" unfolding T_def by (rule two_powi_pos)
  define y where "y = x / 2 ^ 53"
  have near: "\<bar>v - x\<bar> \<le> y"
    unfolding v_def x_def y_def using assms by (rule round53_relative)
  have split: "(1 - 1 / 2 ^ 53) * x = x - y" "(1 + 1 / 2 ^ 53) * x = x + y"
    by (simp_all add: y_def algebra_simps)
  have "x - y \<le> v" and "v \<le> x + y"
    using near by linarith+
  then have lo: "(1 - 1 / 2 ^ 53) * x \<le> v" and hi: "v \<le> (1 + 1 / 2 ^ 53) * x"
    by (simp_all only: split)
  have val: "f64_val (f64_ratio p q e) = v * T"
    using assms by (simp add: f64_ratio_nonneg(3) v_def T_def)
  have "((1 - 1 / 2 ^ 53) * x) * T \<le> v * T"
    using lo T by (intro mult_right_mono) simp_all
  then show "(1 - 1 / 2 ^ 53) * (of_int p / of_int q * 2 powi e) \<le> f64_val (f64_ratio p q e)"
    by (simp add: val x_def T_def mult.assoc)
  have "v * T \<le> ((1 + 1 / 2 ^ 53) * x) * T"
    using hi T by (intro mult_right_mono) simp_all
  then show "f64_val (f64_ratio p q e) \<le> (1 + 1 / 2 ^ 53) * (of_int p / of_int q * 2 powi e)"
    by (simp add: val x_def T_def mult.assoc)
  show "0 < mantissa (f64_ratio p q e)"
    using round53_mantissa(3) [OF assms] assms by (simp add: f64_ratio_def Let_def)
qed

lemma f64_val_pos: "0 < mantissa x \<Longrightarrow> 0 < f64_val x"
  by (simp add: f64_val_powi two_powi_pos)

lemma f64_div_relative:
  assumes "0 < mantissa a" and "0 < mantissa b"
  shows "(1 - 1 / 2 ^ 53) * (f64_val a / f64_val b) \<le> f64_val (f64_div a b)"
    and "f64_val (f64_div a b) \<le> (1 + 1 / 2 ^ 53) * (f64_val a / f64_val b)"
    and "0 < mantissa (f64_div a b)"
proof -
  have quot: "f64_div a b = f64_ratio (mantissa a) (mantissa b) (exponent a - exponent b)"
    using assms(2) by (simp add: f64_div_def)
  have exact: "(of_int (mantissa a) :: rat) / of_int (mantissa b)
        * 2 powi (exponent a - exponent b) = f64_val a / f64_val b"
    by (simp add: f64_val_powi power_int_diff)
  show "(1 - 1 / 2 ^ 53) * (f64_val a / f64_val b) \<le> f64_val (f64_div a b)"
    and "f64_val (f64_div a b) \<le> (1 + 1 / 2 ^ 53) * (f64_val a / f64_val b)"
    and "0 < mantissa (f64_div a b)"
    unfolding quot exact [symmetric] using assms by (rule f64_ratio_relative)+
qed

lemma f64_mul_relative:
  assumes "0 < mantissa a" and "0 < mantissa b"
  shows "(1 - 1 / 2 ^ 53) * (f64_val a * f64_val b) \<le> f64_val (f64_mul a b)"
    and "f64_val (f64_mul a b) \<le> (1 + 1 / 2 ^ 53) * (f64_val a * f64_val b)"
    and "0 < mantissa (f64_mul a b)"
proof -
  have pos: "0 < mantissa a * mantissa b" using assms by simp
  have exact: "(of_int (mantissa a * mantissa b) :: rat) / of_int 1
        * 2 powi (exponent a + exponent b) = f64_val a * f64_val b"
    by (simp add: f64_val_powi power_int_add)
  show "(1 - 1 / 2 ^ 53) * (f64_val a * f64_val b) \<le> f64_val (f64_mul a b)"
    and "f64_val (f64_mul a b) \<le> (1 + 1 / 2 ^ 53) * (f64_val a * f64_val b)"
    and "0 < mantissa (f64_mul a b)"
    unfolding f64_mul_def exact [symmetric] using pos by (rule f64_ratio_relative, simp)+
qed

lemma f64_of_int_relative:
  assumes "0 < i"
  shows "(1 - 1 / 2 ^ 53) * of_int i \<le> f64_val (f64_of_int i)"
    and "f64_val (f64_of_int i) \<le> (1 + 1 / 2 ^ 53) * of_int i"
  using f64_ratio_relative(1,2) [OF assms, of 1 0] by (simp_all add: f64_of_int_def)

lemma linear_product_near:
  assumes "0 < el" and "el < d" and "0 < M" and "M < 2 ^ 53"
  shows "(1 - 1 / 2 ^ 50) * (of_int M * of_int el / of_int d)
           \<le> f64_val (f64_mul (f64_of_int M) (f64_div (f64_of_int el) (f64_of_int d)))"
    and "f64_val (f64_mul (f64_of_int M) (f64_div (f64_of_int el) (f64_of_int d)))
           \<le> (1 + 1 / 2 ^ 50) * (of_int M * of_int el / of_int d)"
    and "0 < mantissa (f64_mul (f64_of_int M) (f64_div (f64_of_int el) (f64_of_int d)))"
proof -
  let ?fm = "f64_of_int M"
  let ?pr = "f64_div (f64_of_int el) (f64_of_int d)"
  define u :: rat where "u = 1 / 2 ^ 53"
  define E :: rat where "E = of_int el"
  define D :: rat where "D = of_int d"
  define m :: rat where "m = of_int M"
  define a where "a = f64_val (f64_of_int el)"
  define b where "b = f64_val (f64_of_int d)"
  define q where "q = f64_val ?pr"
  define g where "g = f64_val (f64_mul ?fm ?pr)"
  define X where "X = m * E / D"
  have d: "0 < d" using assms(1,2) by simp
  have u: "0 < 1 - u" "0 < 1 + u" by (simp_all add: u_def)
  have pos: "0 < E" "0 < D" "0 < m" using assms(1,3) d by (simp_all add: E_def D_def m_def)
  have X: "0 \<le> X" using pos by (simp add: X_def)
  have nn: "0 \<le> 1 - u" "0 \<le> 1 + u" "0 \<le> m" using u pos by simp_all
  have mel: "0 < mantissa (f64_of_int el)" and md: "0 < mantissa (f64_of_int d)"
    and mm: "0 < mantissa ?fm"
    using assms(1,3) d by (simp_all add: f64_of_int_pos)
  have a: "(1 - u) * E \<le> a" "a \<le> (1 + u) * E"
    unfolding u_def E_def a_def using assms(1) by (rule f64_of_int_relative)+
  have b: "(1 - u) * D \<le> b" "b \<le> (1 + u) * D"
    unfolding u_def D_def b_def using d by (rule f64_of_int_relative)+
  have q: "(1 - u) * (a / b) \<le> q" "q \<le> (1 + u) * (a / b)"
    and mq: "0 < mantissa ?pr"
    unfolding u_def a_def b_def q_def using mel md by (rule f64_div_relative)+
  have exact: "f64_val ?fm = m"
    unfolding m_def using assms(3,4) by (intro f64_of_int_exact) simp_all
  have g: "(1 - u) * (m * q) \<le> g" "g \<le> (1 + u) * (m * q)"
    and mg: "0 < mantissa (f64_mul ?fm ?pr)"
    unfolding u_def g_def q_def exact [symmetric] using mm mq by (rule f64_mul_relative)+
  have lowE: "0 < (1 - u) * E" and lowD: "0 < (1 - u) * D"
    using u pos by simp_all
  have apos: "0 < a" using lowE a(1) by linarith
  have ab_hi: "a / b \<le> ((1 + u) * E) / ((1 - u) * D)"
    using apos a(2) lowD b(1) by (intro frac_le) simp_all
  have ab_lo: "((1 - u) * E) / ((1 + u) * D) \<le> a / b"
    using lowE a(1) lowD b by (intro frac_le) simp_all
  have q_hi: "q \<le> (1 + u) * (((1 + u) * E) / ((1 - u) * D))"
  proof -
    have "(1 + u) * (a / b) \<le> (1 + u) * (((1 + u) * E) / ((1 - u) * D))"
      using ab_hi nn(2) by (rule mult_left_mono)
    then show ?thesis using q(2) by linarith
  qed
  have q_lo: "(1 - u) * (((1 - u) * E) / ((1 + u) * D)) \<le> q"
  proof -
    have "(1 - u) * (((1 - u) * E) / ((1 + u) * D)) \<le> (1 - u) * (a / b)"
      using ab_lo nn(1) by (rule mult_left_mono)
    then show ?thesis using q(1) by linarith
  qed
  have g_hi: "g \<le> (1 + u) * (m * ((1 + u) * (((1 + u) * E) / ((1 - u) * D))))"
  proof -
    have "m * q \<le> m * ((1 + u) * (((1 + u) * E) / ((1 - u) * D)))"
      using q_hi nn(3) by (rule mult_left_mono)
    then have "(1 + u) * (m * q) \<le> (1 + u) * (m * ((1 + u) * (((1 + u) * E) / ((1 - u) * D))))"
      using nn(2) by (rule mult_left_mono)
    then show ?thesis using g(2) by linarith
  qed
  have g_lo: "(1 - u) * (m * ((1 - u) * (((1 - u) * E) / ((1 + u) * D)))) \<le> g"
  proof -
    have "m * ((1 - u) * (((1 - u) * E) / ((1 + u) * D))) \<le> m * q"
      using q_lo nn(3) by (rule mult_left_mono)
    then have "(1 - u) * (m * ((1 - u) * (((1 - u) * E) / ((1 + u) * D)))) \<le> (1 - u) * (m * q)"
      using nn(1) by (rule mult_left_mono)
    then show ?thesis using g(1) by linarith
  qed
  have hi_eq: "(1 + u) * (m * ((1 + u) * (((1 + u) * E) / ((1 - u) * D))))
      = ((1 + u) * (1 + u) * (1 + u) / (1 - u)) * X"
    by (simp add: X_def)
  have lo_eq: "(1 - u) * (m * ((1 - u) * (((1 - u) * E) / ((1 + u) * D))))
      = ((1 - u) * (1 - u) * (1 - u) / (1 + u)) * X"
    by (simp add: X_def)
  have cU: "(1 + u) * (1 + u) * (1 + u) / (1 - u) \<le> 1 + 1 / 2 ^ 50"
    by (simp add: u_def)
  have cL: "1 - 1 / 2 ^ 50 \<le> (1 - u) * (1 - u) * (1 - u) / (1 + u)"
    by (simp add: u_def)
  have "((1 + u) * (1 + u) * (1 + u) / (1 - u)) * X \<le> (1 + 1 / 2 ^ 50) * X"
    using cU X by (rule mult_right_mono)
  then have "g \<le> (1 + 1 / 2 ^ 50) * X"
    using g_hi unfolding hi_eq by (rule order_trans [rotated])
  then show "f64_val (f64_mul ?fm ?pr) \<le> (1 + 1 / 2 ^ 50) * (of_int M * of_int el / of_int d)"
    by (simp only: g_def X_def m_def E_def D_def)
  have "(1 - 1 / 2 ^ 50) * X \<le> ((1 - u) * (1 - u) * (1 - u) / (1 + u)) * X"
    using cL X by (rule mult_right_mono)
  then have "(1 - 1 / 2 ^ 50) * X \<le> g"
    using g_lo unfolding lo_eq by (rule order_trans)
  then show "(1 - 1 / 2 ^ 50) * (of_int M * of_int el / of_int d) \<le> f64_val (f64_mul ?fm ?pr)"
    by (simp only: g_def X_def m_def E_def D_def)
  show "0 < mantissa (f64_mul ?fm ?pr)" by (rule mg)
qed

text \<open>
  The truncated double product is the exact floor or one of its two neighbours for a
  maximum up to \<open>2 ^ 50\<close>, and never above the floor when \<open>max * duration \<le> 2 ^ 50\<close>.
\<close>

lemma linearConcurrency_near:
  assumes "0 \<le> el" and "el < d" and "0 \<le> M" and "M \<le> 2 ^ 50"
  shows "(M * el) div d - 1 \<le> linearConcurrency M el d"
    and "linearConcurrency M el d \<le> (M * el) div d + 1"
    and "M * d \<le> 2 ^ 50 \<Longrightarrow> linearConcurrency M el d \<le> (M * el) div d"
proof -
  have all: "(M * el) div d - 1 \<le> linearConcurrency M el d
      \<and> linearConcurrency M el d \<le> (M * el) div d + 1
      \<and> (M * d \<le> 2 ^ 50 \<longrightarrow> linearConcurrency M el d \<le> (M * el) div d)"
  proof (cases "el = 0 \<or> M = 0")
    case True
    have "linearConcurrency 0 el d = 0"
      using linearConcurrency_range(1,2) [OF assms(1,2), of 0] by simp
    moreover have "0 < d \<Longrightarrow> linearConcurrency M 0 d = 0"
      by (rule linearConcurrency_start)
    ultimately have "linearConcurrency M el d = 0"
      using True assms(2) by auto
    moreover have "(M * el) div d = 0" using True by auto
    ultimately show ?thesis by simp
  next
    case False
    then have el: "0 < el" and M: "0 < M" using assms(1,3) by simp_all
    have M53: "M < 2 ^ 53"
    proof -
      have "(2::int) ^ 50 < 2 ^ 53" by simp
      then show ?thesis using assms(4) by (rule le_less_trans [rotated])
    qed
    let ?x = "f64_mul (f64_of_int M) (f64_div (f64_of_int el) (f64_of_int d))"
    define g where "g = f64_val ?x"
    define X :: rat where "X = of_int M * of_int el / of_int d"
    define e where "e = X / 2 ^ 50"
    define k where "k = (M * el) div d"
    define D :: rat where "D = of_int d"
    define m :: rat where "m = of_int M"
    have d: "0 < d" using el assms(2) by simp
    have D: "0 < D" using d by (simp add: D_def)
    have m: "0 < m" using M by (simp add: m_def)
    have split: "(1 - 1 / 2 ^ 50) * X = X - e" "(1 + 1 / 2 ^ 50) * X = X + e"
      by (simp_all add: e_def algebra_simps)
    have "(1 - 1 / 2 ^ 50) * X \<le> g" and "g \<le> (1 + 1 / 2 ^ 50) * X"
      and mant: "0 < mantissa ?x"
      unfolding g_def X_def using el assms(2) M M53 by (rule linear_product_near)+
    then have lo: "X - e \<le> g" and hi: "g \<le> X + e"
      by (simp_all only: split)
    have k: "\<lfloor>X\<rfloor> = k"
      unfolding X_def k_def by (simp only: of_int_mult [symmetric] floor_divide_of_int_eq)
    have "of_int el / D < 1"
      using assms(2) D by (simp add: D_def)
    then have "m * (of_int el / D) < m * 1"
      using m by (rule mult_strict_left_mono)
    then have Xm: "X < m" by (simp add: X_def m_def D_def)
    have m50: "m \<le> 2 ^ 50"
      using assms(4) unfolding m_def by (simp add: of_int_le_iff [of M "2 ^ 50", where ?'a = rat, simplified])
    have "e < m / 2 ^ 50" using Xm by (simp add: e_def divide_strict_right_mono)
    moreover have "m / 2 ^ 50 \<le> 1" using m50 by simp
    ultimately have e1: "e \<le> 1" by linarith
    have "X - 1 \<le> g" using lo e1 by linarith
    then have "\<lfloor>X - 1\<rfloor> \<le> \<lfloor>g\<rfloor>" by (rule floor_mono)
    then have below: "k - 1 \<le> \<lfloor>g\<rfloor>" using k by simp
    have "g \<le> X + 1" using hi e1 by linarith
    then have "\<lfloor>g\<rfloor> \<le> \<lfloor>X + 1\<rfloor>" by (rule floor_mono)
    then have above: "\<lfloor>g\<rfloor> \<le> k + 1" using k by simp
    have target: "linearConcurrency M el d = \<lfloor>g\<rfloor>"
    proof -
      define B :: rat where "B = 2 ^ 50"
      have "0 \<le> g" unfolding g_def using mant by (intro f64_val_nonneg) simp
      then have low: "0 \<le> \<lfloor>g\<rfloor>" by simp
      have "m \<le> B" using m50 by (simp add: B_def)
      then have "g \<le> B + 1" using \<open>g \<le> X + 1\<close> Xm by linarith
      then have "\<lfloor>g\<rfloor> \<le> \<lfloor>B + 1\<rfloor>" by (rule floor_mono)
      also have "\<lfloor>B + 1\<rfloor> = 2 ^ 50 + 1" by (simp add: B_def)
      finally have "\<lfloor>g\<rfloor> \<le> 2 ^ 50 + 1" .
      then have "in64 \<lfloor>g\<rfloor>"
      proof -
        define F where "F = \<lfloor>g\<rfloor>"
        assume "\<lfloor>g\<rfloor> \<le> 2 ^ 50 + 1"
        then have "0 \<le> F" "F \<le> 2 ^ 50 + 1" using low by (simp_all only: F_def)
        then have "in64 F" by (simp add: in64_def)
        then show ?thesis by (simp only: F_def)
      qed
      then show ?thesis
        unfolding g_def using d mant by (intro linearConcurrency_floor) simp_all
    qed
    have exact: "\<lfloor>g\<rfloor> \<le> k" if small: "M * d \<le> 2 ^ 50"
    proof -
      define r where "r = (M * el) mod d"
      have r: "r \<le> d - 1" using d by (simp add: r_def)
      have "M * el = k * d + r" by (simp add: k_def r_def)
      then have "of_int M * of_int el = (of_int k * D + of_int r :: rat)"
        unfolding D_def by (metis of_int_add of_int_mult)
      then have "X = (of_int k * D + of_int r) / D" by (simp add: X_def D_def)
      also have "\<dots> = of_int k + of_int r / D" using D by (simp add: field_simps)
      finally have Xk: "X = of_int k + of_int r / D" .
      have "(of_int r :: rat) \<le> D - 1"
        using r unfolding D_def by (metis of_int_1 of_int_diff of_int_le_iff)
      then have "of_int r / D \<le> (D - 1) / D"
        using D by (simp add: divide_right_mono)
      also have "\<dots> = 1 - 1 / D" using D by (simp add: field_simps)
      finally have rD: "of_int r / D \<le> 1 - 1 / D" .
      have "of_int (M * d) \<le> (2 ^ 50 :: rat)"
        using small by (simp add: of_int_le_iff [of "M * d" "2 ^ 50", where ?'a = rat, simplified])
      then have "m * D \<le> 2 ^ 50" by (simp add: m_def D_def)
      then have "m \<le> 2 ^ 50 / D" using D by (simp add: pos_le_divide_eq)
      then have "m / 2 ^ 50 \<le> 1 / D" by (simp add: field_simps)
      then have "e < 1 / D" using \<open>e < m / 2 ^ 50\<close> by linarith
      then have "g < of_int k + 1" using hi Xk rD by linarith
      then have "g < of_int (k + 1)" by simp
      then have "\<lfloor>g\<rfloor> < k + 1" by (simp only: floor_less_iff)
      then show ?thesis by simp
    qed
    show ?thesis
      unfolding target k_def [symmetric] using below above exact by simp
  qed
  show "(M * el) div d - 1 \<le> linearConcurrency M el d"
    and "linearConcurrency M el d \<le> (M * el) div d + 1"
    and "M * d \<le> 2 ^ 50 \<Longrightarrow> linearConcurrency M el d \<le> (M * el) div d"
    using all by simp_all
qed

text \<open>
  C2 (as the code has it): for every calculator built from a strategy whose duration
  parses, the target of an immediate strategy is the maximum concurrency; the target of
  a linear strategy is the maximum once the elapsed time has reached the duration, and
  0 at elapsed time 0 of a positive duration. Before the duration has elapsed, for an
  elapsed time that is not negative and a maximum from 0 to below \<open>2 ^ 53\<close>, the target
  is the double product \<open>float64(max) * (float64(elapsed) / float64(duration))\<close> cut to
  an integer (\<open>linearConcurrency\<close>, here the floor of that double), and lies between 0
  and the maximum. For a maximum up to \<open>2 ^ 50\<close> it is within 1 of the floor of
  \<open>max * elapsed / duration\<close>, and not above that floor when
  \<open>max * duration \<le> 2 ^ 50\<close>. Outside these bounds (a negative elapsed time, a
  negative or larger maximum) nothing is claimed of the target before the duration has
  elapsed.
\<close>

theorem GetCurrentConcurrency_immediate_linear:
  assumes "NewRampUpCalculator pd strat maxC = Inr calc"
  shows "(Type strat = RampUpTypeImmediate \<longrightarrow>
            fst (GetCurrentConcurrency pd calc ex (StartTime ex + elapsed)) = maxC)
     \<and> (Type strat = RampUpTypeLinear \<longrightarrow>
            pd (RampUpStrategy.Duration strat) = Some (duration calc)
          \<and> (duration calc \<le> elapsed \<longrightarrow>
                fst (GetCurrentConcurrency pd calc ex (StartTime ex + elapsed)) = maxC)
          \<and> (0 \<le> elapsed \<and> elapsed < duration calc \<and> 0 \<le> maxC \<and> maxC < 2 ^ 53 \<longrightarrow>
                fst (GetCurrentConcurrency pd calc ex (StartTime ex + elapsed)) =
                  linearConcurrency maxC elapsed (duration calc)
                \<and> fst (GetCurrentConcurrency pd calc ex (StartTime ex + elapsed)) =
                  \<lfloor>f64_val (f64_mul (f64_of_int maxC)
                     (f64_div (f64_of_int elapsed) (f64_of_int (duration calc))))\<rfloor>)
          \<and> (elapsed = 0 \<and> 0 < duration calc \<longrightarrow>
                fst (GetCurrentConcurrency pd calc ex (StartTime ex + elapsed)) = 0)
          \<and> (0 \<le> elapsed \<and> 0 \<le> maxC \<and> maxC < 2 ^ 53 \<longrightarrow>
                0 \<le> fst (GetCurrentConcurrency pd calc ex (StartTime ex + elapsed))
                \<and> fst (GetCurrentConcurrency pd calc ex (StartTime ex + elapsed)) \<le> maxC)
          \<and> (0 \<le> elapsed \<and> 0 \<le> maxC \<and> maxC \<le> 2 ^ 50 \<longrightarrow>
                specLinearConcurrency maxC elapsed (duration calc) - 1
                  \<le> fst (GetCurrentConcurrency pd calc ex (StartTime ex + elapsed))
                \<and> fst (GetCurrentConcurrency pd calc ex (StartTime ex + elapsed))
                  \<le> specLinearConcurrency maxC elapsed (duration calc) + 1
                \<and> (maxC * duration calc \<le> 2 ^ 50 \<longrightarrow>
                      fst (GetCurrentConcurrency pd calc ex (StartTime ex + elapsed))
                        \<le> specLinearConcurrency maxC elapsed (duration calc))))"
proof -
  from assms obtain d where d: "pd (RampUpStrategy.Duration strat) = Some d"
    and calc: "calc = \<lparr>strategy = strat, maxConcurrency = maxC, startTime = 0, duration = d\<rparr>"
    by (auto simp: NewRampUpCalculator_def split: option.splits)
  have immediate: "fst (GetCurrentConcurrency pd calc ex (StartTime ex + elapsed)) = maxC"
    if "Type strat = RampUpTypeImmediate"
    using that by (simp add: GetCurrentConcurrency_def calc)
  have linear: "fst (GetCurrentConcurrency pd calc ex (StartTime ex + elapsed)) =
      (if d \<le> elapsed then maxC else linearConcurrency maxC elapsed d)"
    if "Type strat = RampUpTypeLinear"
    using that RampUpType_distinct by (simp add: GetCurrentConcurrency_def calc Since_def)
  have range: "0 \<le> (if d \<le> elapsed then maxC else linearConcurrency maxC elapsed d)
      \<and> (if d \<le> elapsed then maxC else linearConcurrency maxC elapsed d) \<le> maxC"
    if "0 \<le> elapsed" "0 \<le> maxC" "maxC < 2 ^ 53"
    using that linearConcurrency_range [of elapsed d maxC] by auto
  have near: "specLinearConcurrency maxC elapsed d - 1
        \<le> (if d \<le> elapsed then maxC else linearConcurrency maxC elapsed d)
      \<and> (if d \<le> elapsed then maxC else linearConcurrency maxC elapsed d)
        \<le> specLinearConcurrency maxC elapsed d + 1
      \<and> (maxC * d \<le> 2 ^ 50 \<longrightarrow>
            (if d \<le> elapsed then maxC else linearConcurrency maxC elapsed d)
              \<le> specLinearConcurrency maxC elapsed d)"
    if "0 \<le> elapsed" "0 \<le> maxC" "maxC \<le> 2 ^ 50"
    using that linearConcurrency_near [of elapsed d maxC]
    by (auto simp: specLinearConcurrency_def)
  have start: "fst (GetCurrentConcurrency pd calc ex (StartTime ex + elapsed)) = 0"
    if "Type strat = RampUpTypeLinear" "elapsed = 0" "0 < d"
    using linear that by (simp add: linearConcurrency_start)
  have cut: "linearConcurrency maxC elapsed d =
      \<lfloor>f64_val (f64_mul (f64_of_int maxC) (f64_div (f64_of_int elapsed) (f64_of_int d)))\<rfloor>"
    if "0 \<le> elapsed" "elapsed < d" "0 \<le> maxC" "maxC < 2 ^ 53"
    using that by (rule linearConcurrency_range(3))
  have dur: "duration calc = d" by (simp add: calc)
  show ?thesis
    unfolding dur using immediate linear range near start cut d by simp
qed

theorem GetCurrentConcurrency_immediate_linear_witness:
  "NewRampUpCalculator parseSecondsLiteral linearStrategy 100 = Inr linearCalculator
   \<and> fst (GetCurrentConcurrency parseSecondsLiteral linearCalculator linearExecution
          (StartTime linearExecution + 0)) = 0
   \<and> fst (GetCurrentConcurrency parseSecondsLiteral linearCalculator linearExecution
          (StartTime linearExecution + 5000000000)) = 50
   \<and> fst (GetCurrentConcurrency parseSecondsLiteral linearCalculator linearExecution
          (StartTime linearExecution + 10000000000)) = 100
   \<and> fst (GetCurrentConcurrency parseSecondsLiteral linearCalculator linearExecution
          (StartTime linearExecution + 15000000000)) = 100"
proof -
  have new: "NewRampUpCalculator parseSecondsLiteral linearStrategy 100 = Inr linearCalculator"
    by code_simp
  have kind: "Type linearStrategy = RampUpTypeLinear"
    by (simp add: linearStrategy_def RampUpTypeLinear_def)
  have d: "duration linearCalculator = 10000000000"
    by (simp add: linearCalculator_def)
  have half: "linearConcurrency 100 5000000000 10000000000 = 50"
    by code_simp
  note facts = GetCurrentConcurrency_immediate_linear [OF new, of linearExecution]
  show ?thesis
    using new kind d half facts [of 0] facts [of 5000000000] facts [of 10000000000]
      facts [of 15000000000]
    by simp
qed

text \<open>
  C2 (as stated) fails: at maximum 100, duration 10 s and elapsed time 2.9 s the double
  quotient is just below 0.29 and the product just below 29, so the target is 28, where
  the floor of \<open>100 * 2.9 / 10\<close> is 29.
\<close>

theorem GetCurrentConcurrency_linear_counterexample:
  "NewRampUpCalculator parseSecondsLiteral linearStrategy 100 = Inr linearCalculator
   \<and> fst (GetCurrentConcurrency parseSecondsLiteral linearCalculator linearExecution
          (StartTime linearExecution + 2900000000)) = 28
   \<and> specLinearConcurrency 100 2900000000 10000000000 = 29"
  by code_simp

text \<open>
  The bounds on the elapsed time and on the maximum are needed. With a zero duration and
  a negative elapsed time the progress is an infinity; with the largest 64-bit maximum
  and a progress that rounds to 1 the product is \<open>2 ^ 63\<close>. Neither is a 64-bit
  integer, and the conversion gives the least one.
\<close>

lemma linearConcurrency_unrepresentable:
  "linearConcurrency 100 (- 1) 0 = MinInt64
   \<and> linearConcurrency 9223372036854775807 4611686018427387903 4611686018427387904 = MinInt64"
  by code_simp

text \<open>
  The bound by the maximum is a property of the immediate and linear strategies only: a
  phase-based target is the concurrency of a phase as configured.
\<close>

lemma phase_target_above_max:
  "(case NewRampUpCalculator parseSecondsLiteral cappedStrategy 50 of
      Inl e \<Rightarrow> False
    | Inr calc \<Rightarrow>
        fst (GetCurrentConcurrency parseSecondsLiteral calc linearExecution
               (StartTime linearExecution + 1000000000)) = 200)"
  by code_simp

end
